theory Spec2Isabelle
  imports Complex_Main "HOL-Library.Sublist" "HOL-Library.Signed_Division"
begin

chapter \<open>The model\<close>

section \<open>Scroll lock counter (main.js, lines 64-80)\<close>

text \<open>
  The module keeps one counter \<open>scrollLockCount\<close> and toggles the class
  \<open>no-scroll\<close> on \<open>document.body\<close>. The counter is a JavaScript number that only
  ever holds integers; it is modelled as \<open>int\<close>. The class is the boolean
  \<open>noScroll\<close>.
\<close>

record scroll_state =
  scrollLockCount :: int
  noScroll :: bool

definition scroll_init :: scroll_state where
  "scroll_init = \<lparr>scrollLockCount = 0, noScroll = False\<rparr>"

definition lockScroll :: "scroll_state \<Rightarrow> scroll_state" where
  "lockScroll s =
     (let s1 = (if scrollLockCount s = 0 then s\<lparr>noScroll := True\<rparr> else s)
      in s1\<lparr>scrollLockCount := scrollLockCount s1 + 1\<rparr>)"

definition unlockScroll :: "scroll_state \<Rightarrow> scroll_state" where
  "unlockScroll s =
     (let s1 = s\<lparr>scrollLockCount := max 0 (scrollLockCount s - 1)\<rparr>
      in if scrollLockCount s1 = 0 then s1\<lparr>noScroll := False\<rparr> else s1)"

datatype scroll_call = LockScroll | UnlockScroll

fun scroll_step :: "scroll_state \<Rightarrow> scroll_call \<Rightarrow> scroll_state" where
  "scroll_step s LockScroll = lockScroll s"
| "scroll_step s UnlockScroll = unlockScroll s"

definition run_calls :: "scroll_call list \<Rightarrow> scroll_state \<Rightarrow> scroll_state" where
  "run_calls cs s = foldl scroll_step s cs"

text \<open>Counting the calls of a sequence, for the statements below.\<close>

definition locks :: "scroll_call list \<Rightarrow> int" where
  "locks cs = int (length (filter (\<lambda>c. c = LockScroll) cs))"

definition unlocks :: "scroll_call list \<Rightarrow> int" where
  "unlocks cs = int (length (filter (\<lambda>c. c = UnlockScroll) cs))"

text \<open>
  The pairing discipline of the module comment (\<open>lockScroll\<close> and \<open>unlockScroll\<close>
  are called in pairs): no prefix of the call sequence holds more releases than
  acquisitions.
\<close>

definition paired :: "scroll_call list \<Rightarrow> bool" where
  "paired cs = list_all (\<lambda>p. unlocks p \<le> locks p) (prefixes cs)"

text \<open>
  Without the discipline, what decides the flag is whether some suffix of the call
  sequence holds more acquisitions than releases.
\<close>

definition surplus :: "scroll_call list \<Rightarrow> bool" where
  "surplus cs = list_ex (\<lambda>suf. unlocks suf < locks suf) (suffixes cs)"

text \<open>The invariant that ties the class to the counter.\<close>

definition lock_inv :: "scroll_state \<Rightarrow> bool" where
  "lock_inv s = (0 \<le> scrollLockCount s \<and> noScroll s = (0 < scrollLockCount s))"

section \<open>Resize broadcaster (main.js, lines 296-312)\<close>

text \<open>
  \<open>resizeCallbacks\<close> is the array of registered callbacks and \<open>resizeTimer\<close> the
  handle of the last timeout (\<open>null\<close> at first). A callback takes no argument and acts
  on the rest of the page, the state \<open>app\<close> here. The browser's side is written out:
  \<open>timers\<close> holds the timeouts that are set and not yet run, each with the time (in
  milliseconds) at which it is due, and \<open>nextTimer\<close> is the handle the next
  \<open>setTimeout\<close> returns. Every timeout of this component runs the same function, the
  broadcast.
\<close>

record 'a broadcaster =
  resizeCallbacks :: "('a \<Rightarrow> 'a) list"
  resizeTimer :: "nat option"
  timers :: "(nat \<times> nat) list"
  nextTimer :: nat
  app :: 'a

definition onResize :: "('a \<Rightarrow> 'a) \<Rightarrow> 'a broadcaster \<Rightarrow> 'a broadcaster" where
  "onResize callback b = b\<lparr>resizeCallbacks := resizeCallbacks b @ [callback]\<rparr>"

definition clearTimeout :: "nat option \<Rightarrow> (nat \<times> nat) list \<Rightarrow> (nat \<times> nat) list" where
  "clearTimeout h ts = (case h of None \<Rightarrow> ts | Some i \<Rightarrow> filter (\<lambda>(j, d). j \<noteq> i) ts)"

text \<open>The listener of the window's \<open>resize\<close> event, run at time \<open>now\<close>.\<close>

definition resize_listener :: "nat \<Rightarrow> 'a broadcaster \<Rightarrow> 'a broadcaster" where
  "resize_listener now b =
     (let ts = clearTimeout (resizeTimer b) (timers b);
          h = nextTimer b
      in b\<lparr>timers := ts @ [(h, now + 200)], resizeTimer := Some h, nextTimer := h + 1\<rparr>)"

text \<open>The timeout's function: \<open>resizeCallbacks.forEach((cb) => cb())\<close>.\<close>

definition broadcast :: "'a broadcaster \<Rightarrow> 'a broadcaster" where
  "broadcast b = b\<lparr>app := foldl (\<lambda>a cb. cb a) (app b) (resizeCallbacks b)\<rparr>"

text \<open>
  The event loop at time \<open>now\<close>: every timeout that is due is taken off the list and
  run, the oldest first.
\<close>

definition is_due :: "nat \<Rightarrow> nat \<times> nat \<Rightarrow> bool" where
  "is_due now t = (snd t \<le> now)"

definition advance :: "nat \<Rightarrow> 'a broadcaster \<Rightarrow> 'a broadcaster" where
  "advance now b =
     foldl (\<lambda>b' t. broadcast b') (b\<lparr>timers := filter (\<lambda>t. \<not> is_due now t) (timers b)\<rparr>)
       (filter (is_due now) (timers b))"

text \<open>
  A burst: resize signals at the times \<open>ts\<close>, the event loop running what is due
  before each.
\<close>

fun burst :: "nat list \<Rightarrow> 'a broadcaster \<Rightarrow> 'a broadcaster" where
  "burst [] b = b"
| "burst (t # ts) b = burst ts (resize_listener t (advance t b))"

text \<open>
  Consecutive signals of a burst are in time order and less than the quiet period of
  200 ms apart.
\<close>

definition within_quiet :: "nat list \<Rightarrow> bool" where
  "within_quiet ts = successively (\<lambda>a b. a \<le> b \<and> b < a + 200) ts"

text \<open>A broadcaster with callbacks registered and no resize signal received yet.\<close>

definition broadcaster_init :: "('a \<Rightarrow> 'a) list \<Rightarrow> 'a \<Rightarrow> 'a broadcaster" where
  "broadcaster_init cbs a =
     foldl (\<lambda>b cb. onResize cb b)
       \<lparr>resizeCallbacks = [], resizeTimer = None, timers = [], nextTimer = 1, app = a\<rparr> cbs"

text \<open>The state between two signals of a burst: the one timeout of the last signal.\<close>

definition armed :: "nat \<Rightarrow> 'a broadcaster \<Rightarrow> bool" where
  "armed due b = (\<exists>h. timers b = [(h, due)] \<and> resizeTimer b = Some h)"

section \<open>The page (main.js, lines 20-23, 42-55, 88-89)\<close>

text \<open>
  What the script reads of the document when it starts. \<open>ids\<close> are the \<open>id\<close>
  attributes present, so that \<open>$('#lightbox')\<close> and
  \<open>document.getElementById('hero')\<close> find an element exactly when the id is listed.
  \<open>galleryItems\<close> is \<open>$$('.gallery__item')\<close> in document order; an item holds what
  \<open>getItemData\<close> reads of it: the \<open>src\<close> and \<open>alt\<close> of its \<open>img\<close> and the text of
  the caption's \<open>h3\<close> and \<open>p\<close>, each absent when the element is. \<open>documentMatch\<close>
  is what the same three selectors find in the whole document. \<open>navLinks\<close> lists the
  section ids for which a \<open>.header__nav-link\<close> with that \<open>href\<close> exists.
\<close>

record gallery_item =
  img :: "(string \<times> string) option"
  captionH3 :: "string option"
  captionP :: "string option"

record page =
  ids :: "string list"
  galleryItems :: "gallery_item list"
  documentMatch :: gallery_item
  overlay :: bool
  navLinks :: "string list"
  hasGSAP :: bool
  prefersReducedMotion :: bool
  hasIntersectionObserver :: bool

definition byId :: "page \<Rightarrow> string \<Rightarrow> string option" where
  "byId pg i = (if i \<in> set (ids pg) then Some i else None)"

text \<open>
  A \<open>TypeError\<close> is what reading a property of \<open>null\<close> or \<open>undefined\<close> throws;
  \<open>deref\<close> is such a read. A \<open>ReferenceError\<close> is what naming a global that does not
  exist throws, as \<open>new IntersectionObserver\<close> does in a browser without it.
\<close>

datatype js_error = TypeError | ReferenceError

definition deref :: "'a option \<Rightarrow> js_error + 'a" where
  "deref v = (case v of None \<Rightarrow> Inl TypeError | Some a \<Rightarrow> Inr a)"

definition bind_js :: "js_error + 'a \<Rightarrow> ('a \<Rightarrow> js_error + 'b) \<Rightarrow> js_error + 'b" where
  "bind_js m f = (case m of Inl e \<Rightarrow> Inl e | Inr a \<Rightarrow> f a)"

section \<open>Navigation observer (main.js, lines 202-233 and 314-322)\<close>

text \<open>
  The \<open>rootMargin\<close> string \<open>-${headerHeight}px 0px -40% 0px\<close> is kept as its four
  lengths (top, right, bottom, left), \<open>root: null\<close> (the viewport) as \<open>None\<close>; an
  \<open>offsetHeight\<close> is never negative, so the top margin is always a well-formed length.
  \<open>observers\<close> is the heap of \<open>IntersectionObserver\<close> objects created so far, a
  reference being an index; \<open>navObserver\<close> is \<open>null\<close> or a reference. An observer
  keeps the ids of the sections it observes; \<open>disconnect\<close> empties them.
\<close>

datatype margin = Px int | Percent int

record observer_options =
  io_root :: "string option"
  rootMargin :: "margin list"
  threshold :: nat

record io_observer =
  options :: observer_options
  observed :: "string list"

record nav_state =
  headerHeight :: int
  navObserver :: "nat option"
  observers :: "io_observer list"

definition NAV_SECTION_IDS :: "string list" where
  "NAV_SECTION_IDS = [''about'', ''topics'', ''exhibition'', ''access'']"

definition disconnect :: "nat \<Rightarrow> io_observer list \<Rightarrow> io_observer list" where
  "disconnect r os = (if r < length os then os[r := (os ! r)\<lparr>observed := []\<rparr>] else os)"

definition nav_options :: "int \<Rightarrow> observer_options" where
  "nav_options h =
     \<lparr>io_root = None, rootMargin = [Px (- h), Px 0, Percent (- 40), Px 0], threshold = 0\<rparr>"

definition initNavObserver :: "page \<Rightarrow> nav_state \<Rightarrow> js_error + nav_state" where
  "initNavObserver pg s =
     (let os1 = (case navObserver s of None \<Rightarrow> observers s
                 | Some r \<Rightarrow> disconnect r (observers s))
      in if \<not> hasIntersectionObserver pg then Inl ReferenceError
         else
           let ob = \<lparr>options = nav_options (headerHeight s),
                     observed = filter (\<lambda>i. byId pg i \<noteq> None) NAV_SECTION_IDS\<rparr>
           in Inr (s\<lparr>observers := os1 @ [ob], navObserver := Some (length os1)\<rparr>))"

text \<open>
  The observer's callback, on a batch of entries (target id, \<open>isIntersecting\<close>):
  it toggles the class \<open>header__nav-link--active\<close> of the link of each entry, and skips
  an entry whose link is missing. \<open>act\<close> is the set of ids whose link has the class.
\<close>

definition nav_entry :: "page \<Rightarrow> string set \<Rightarrow> string \<times> bool \<Rightarrow> string set" where
  "nav_entry pg act e =
     (if fst e \<notin> set (navLinks pg) then act
      else if snd e then insert (fst e) act else act - {fst e})"

definition nav_callback :: "page \<Rightarrow> (string \<times> bool) list \<Rightarrow> string set \<Rightarrow> string set" where
  "nav_callback pg entries act = foldl (nav_entry pg) act entries"

text \<open>
  Module start, lines 55 and 233: \<open>headerHeight\<close> is the header's \<open>offsetHeight\<close>, or
  80 without a header, then \<open>initNavObserver()\<close>. The header's height is a measurement:
  \<open>None\<close> when \<open>els.header\<close> is \<open>null\<close>.
\<close>

definition nav_blank :: "int option \<Rightarrow> nav_state" where
  "nav_blank hdr =
     \<lparr>headerHeight = (case hdr of None \<Rightarrow> 80 | Some h \<Rightarrow> h), navObserver = None,
      observers = []\<rparr>"

definition nav_start :: "page \<Rightarrow> int option \<Rightarrow> js_error + nav_state" where
  "nav_start pg hdr = initNavObserver pg (nav_blank hdr)"

text \<open>The resize callback of lines 315-322, with the header's height as measured now.\<close>

definition header_resize :: "page \<Rightarrow> int option \<Rightarrow> nav_state \<Rightarrow> js_error + nav_state" where
  "header_resize pg hdr s =
     (case hdr of
        None \<Rightarrow> Inr s
      | Some newHeight \<Rightarrow>
          if newHeight \<noteq> headerHeight s
          then initNavObserver pg (s\<lparr>headerHeight := newHeight\<rparr>)
          else Inr s)"

text \<open>Any number of resize broadcasts, each with its own measurement.\<close>

definition nav_run :: "page \<Rightarrow> int option list \<Rightarrow> nav_state \<Rightarrow> js_error + nav_state" where
  "nav_run pg hs s = foldl (\<lambda>m h. bind_js m (header_resize pg h)) (Inr s) hs"

text \<open>
  The header height at module start, line 55, and the height the script holds after the
  broadcasts that measured \<open>hs\<close>: the last measurement, a broadcast on a page without
  header measuring nothing.
\<close>

definition start_height :: "int option \<Rightarrow> int" where
  "start_height hdr = (case hdr of None \<Rightarrow> 80 | Some h \<Rightarrow> h)"

definition held_height :: "int option \<Rightarrow> int option list \<Rightarrow> int" where
  "held_height hdr hs =
     foldl (\<lambda>h m. case m of None \<Rightarrow> h | Some x \<Rightarrow> x) (start_height hdr) hs"

text \<open>The observer in use is configured for the header height the script holds.\<close>

definition nav_ok :: "nav_state \<Rightarrow> bool" where
  "nav_ok s =
     (case navObserver s of
        None \<Rightarrow> False
      | Some r \<Rightarrow> r < length (observers s)
                 \<and> options (observers s ! r) = nav_options (headerHeight s))"

text \<open>
  For the examples: the state after the start on a page with all four sections, and on
  one without the section \<open>about\<close>.
\<close>

definition nav_full :: nav_state where
  "nav_full =
     \<lparr>headerHeight = 64, navObserver = Some 0,
      observers = [\<lparr>options = \<lparr>io_root = None,
                               rootMargin = [Px (- 64), Px 0, Percent (- 40), Px 0],
                               threshold = 0\<rparr>,
                    observed = [''about'', ''topics'', ''exhibition'', ''access'']\<rparr>]\<rparr>"

definition nav_bare :: nav_state where
  "nav_bare =
     \<lparr>headerHeight = 80, navObserver = Some 0,
      observers = [\<lparr>options = nav_options 80,
                    observed = [''topics'', ''exhibition'', ''access'']\<rparr>]\<rparr>"

section \<open>Hero particles (main.js, lines 728-852)\<close>

text \<open>
  Coordinates and speeds are JavaScript numbers, modelled as reals; the comparisons of
  the update step are exact on either. \<open>Math.random()\<close> is a supply \<open>rnd\<close> of numbers
  read at the position \<open>rndPos\<close>. A colour is \<open>None\<close> where the array read gives
  \<open>undefined\<close>. The fields \<open>x\<close>, \<open>y\<close>, \<open>size\<close>, \<open>color\<close> and \<open>opacity\<close> of the source
  carry the prefix \<open>p_\<close>.
\<close>

record particle =
  p_x :: real
  p_y :: real
  p_size :: real
  speedX :: real
  speedY :: real
  p_color :: "string option"
  p_opacity :: real
  twinkle :: real
  twinkleSpeed :: real

text \<open>What \<open>drawParticle\<close> paints: a filled arc with its \<open>globalAlpha\<close> and \<open>fillStyle\<close>.\<close>

record arc =
  arc_x :: real
  arc_y :: real
  radius :: real
  alpha :: real
  fillStyle :: "string option"

text \<open>
  The closure of \<open>initHeroParticles\<close>, with the browser's side of the frame requests:
  \<open>frames\<close> are the handles of the requested callbacks not yet run or cancelled (each
  runs \<open>animate\<close>), \<open>nextFrame\<close> the handle the next \<open>requestAnimationFrame\<close>
  returns. \<open>canvas\<close> is what has been painted since the last \<open>clearRect\<close>.
\<close>

record hero_state =
  canvasWidth :: nat
  canvasHeight :: nat
  particles :: "particle list"
  particleCount :: nat
  animId :: "nat option"
  isHeroVisible :: bool
  frames :: "nat list"
  nextFrame :: nat
  rnd :: "nat \<Rightarrow> real"
  rndPos :: nat
  canvas :: "arc list"

definition calcParticleCount :: "nat \<Rightarrow> nat" where
  "calcParticleCount innerWidth = min (innerWidth div 15) 80"

definition COLORS :: "string list" where
  "COLORS =
     [''rgba(197, 165, 90, 0.8)'',
      ''rgba(212, 186, 122, 0.6)'',
      ''rgba(158, 131, 62, 0.7)'',
      ''rgba(255, 215, 0, 0.5)'',
      ''rgba(218, 165, 32, 0.6)'']"

definition resizeCanvas :: "nat \<Rightarrow> nat \<Rightarrow> hero_state \<Rightarrow> hero_state" where
  "resizeCanvas offsetWidth offsetHeight s =
     s\<lparr>canvasWidth := offsetWidth, canvasHeight := offsetHeight\<rparr>"

text \<open>\<open>createParticle\<close> reads nine random numbers, in the order of the object literal.\<close>

definition createParticle :: "nat \<Rightarrow> nat \<Rightarrow> (nat \<Rightarrow> real) \<Rightarrow> nat \<Rightarrow> particle" where
  "createParticle w h r k =
     \<lparr>p_x = r k * real w,
      p_y = r (k + 1) * real h,
      p_size = r (k + 2) * 2.5 + 0.5,
      speedX = (r (k + 3) - 0.5) * 0.4,
      speedY = - r (k + 4) * 0.3 - 0.1,
      p_color = (let i = \<lfloor>r (k + 5) * real (length COLORS)\<rfloor>
                 in if 0 \<le> i \<and> i < int (length COLORS) then Some (COLORS ! nat i) else None),
      p_opacity = r (k + 6) * 0.5 + 0.3,
      twinkle = r (k + 7) * pi * 2,
      twinkleSpeed = r (k + 8) * 0.02 + 0.005\<rparr>"

fun make_particles :: "nat \<Rightarrow> nat \<Rightarrow> nat \<Rightarrow> (nat \<Rightarrow> real) \<Rightarrow> nat \<Rightarrow> particle list" where
  "make_particles 0 w h r k = []"
| "make_particles (Suc n) w h r k = createParticle w h r k # make_particles n w h r (k + 9)"

definition initParticles :: "hero_state \<Rightarrow> hero_state" where
  "initParticles s =
     s\<lparr>particles := make_particles (particleCount s) (canvasWidth s) (canvasHeight s)
                      (rnd s) (rndPos s),
       rndPos := rndPos s + 9 * particleCount s\<rparr>"

definition drawParticle :: "particle \<Rightarrow> arc list" where
  "drawParticle p =
     (let flickerOpacity = p_opacity p * (0.6 + 0.4 * sin (twinkle p))
      in \<lparr>arc_x = p_x p, arc_y = p_y p, radius = p_size p, alpha = flickerOpacity,
           fillStyle = p_color p\<rparr>
         # (if p_size p > 1.5
            then [\<lparr>arc_x = p_x p, arc_y = p_y p, radius = p_size p * 3,
                   alpha = flickerOpacity * 0.3, fillStyle = p_color p\<rparr>]
            else []))"

text \<open>
  The body of \<open>particles.forEach\<close> in \<open>animate\<close>, for one particle: the move, then
  the three tests in the order of the source. It returns the particle and the position
  in the random supply.
\<close>

definition update_particle :: "nat \<Rightarrow> nat \<Rightarrow> (nat \<Rightarrow> real) \<Rightarrow> nat \<Rightarrow> particle \<Rightarrow> particle \<times> nat" where
  "update_particle w h r k p =
     (let p1 = p\<lparr>p_x := p_x p + speedX p, p_y := p_y p + speedY p,
                twinkle := twinkle p + twinkleSpeed p\<rparr>;
          vertical = (p_y p1 < - 10);
          p2 = (if vertical then p1\<lparr>p_y := real h + 10, p_x := r k * real w\<rparr> else p1);
          p3 = (if p_x p2 < - 10 then p2\<lparr>p_x := real w + 10\<rparr> else p2);
          p4 = (if p_x p3 > real w + 10 then p3\<lparr>p_x := - 10\<rparr> else p3)
      in (p4, if vertical then k + 1 else k))"

fun update_particles :: "nat \<Rightarrow> nat \<Rightarrow> (nat \<Rightarrow> real) \<Rightarrow> nat \<Rightarrow> particle list \<Rightarrow> particle list \<times> nat" where
  "update_particles w h r k [] = ([], k)"
| "update_particles w h r k (p # ps) =
     (let (p', k1) = update_particle w h r k p;
          (ps', k2) = update_particles w h r k1 ps
      in (p' # ps', k2))"

definition animate :: "hero_state \<Rightarrow> hero_state" where
  "animate s =
     (if \<not> isHeroVisible s then s\<lparr>animId := None\<rparr>
      else
        let (ps, k) = update_particles (canvasWidth s) (canvasHeight s) (rnd s) (rndPos s)
                        (particles s);
            h = nextFrame s
        in s\<lparr>particles := ps, rndPos := k, canvas := concat (map drawParticle ps),
             animId := Some h, frames := frames s @ [h], nextFrame := h + 1\<rparr>)"

text \<open>The browser runs the frame callback with handle \<open>h\<close>, if it is still requested.\<close>

definition frame_callback :: "nat \<Rightarrow> hero_state \<Rightarrow> hero_state" where
  "frame_callback h s =
     (if h \<in> set (frames s) then animate (s\<lparr>frames := removeAll h (frames s)\<rparr>) else s)"

text \<open>The callback of the observer of the hero section, on an entry's \<open>isIntersecting\<close>.\<close>

definition hero_observer :: "bool \<Rightarrow> hero_state \<Rightarrow> hero_state" where
  "hero_observer isIntersecting s =
     (let wasVisible = isHeroVisible s;
          s1 = s\<lparr>isHeroVisible := isIntersecting\<rparr>
      in if \<not> wasVisible \<and> isHeroVisible s1 then animate s1 else s1)"

definition cancelAnimationFrame :: "nat \<Rightarrow> hero_state \<Rightarrow> hero_state" where
  "cancelAnimationFrame h s = s\<lparr>frames := removeAll h (frames s)\<rparr>"

text \<open>
  The resize callback of lines 845-851, with the canvas's \<open>offsetWidth\<close> and
  \<open>offsetHeight\<close> and the window's \<open>innerWidth\<close> as measured now. \<open>if (animId)\<close> is
  false for \<open>null\<close> and for 0.
\<close>

definition hero_resize :: "nat \<Rightarrow> nat \<Rightarrow> nat \<Rightarrow> hero_state \<Rightarrow> hero_state" where
  "hero_resize offsetWidth offsetHeight innerWidth s =
     (let s1 = (case animId s of
                  None \<Rightarrow> s
                | Some h \<Rightarrow> if h \<noteq> 0 then cancelAnimationFrame h s else s);
          s2 = resizeCanvas offsetWidth offsetHeight s1;
          s3 = s2\<lparr>particleCount := calcParticleCount innerWidth\<rparr>;
          s4 = initParticles s3
      in if isHeroVisible s4 then animate s4 else s4)"

text \<open>
  \<open>initHeroParticles\<close>: nothing without the canvas or with reduced motion; otherwise
  the closure after \<open>resizeCanvas(); initParticles(); animate()\<close>. \<open>cv\<close> is the canvas's
  \<open>offsetWidth\<close> and \<open>offsetHeight\<close>. The observer is attached when the hero section and
  \<open>IntersectionObserver\<close> exist (\<open>hero_observed\<close>); the resize callback is registered in
  every case.
\<close>

definition hero_closure :: "nat \<times> nat \<Rightarrow> nat \<Rightarrow> (nat \<Rightarrow> real) \<Rightarrow> hero_state" where
  "hero_closure cv innerWidth r =
     animate (initParticles (resizeCanvas (fst cv) (snd cv)
       \<lparr>canvasWidth = 0, canvasHeight = 0, particles = [],
        particleCount = calcParticleCount innerWidth, animId = None, isHeroVisible = True,
        frames = [], nextFrame = 1, rnd = r, rndPos = 0, canvas = []\<rparr>))"

definition initHeroParticles :: "page \<Rightarrow> nat \<times> nat \<Rightarrow> nat \<Rightarrow> (nat \<Rightarrow> real) \<Rightarrow> hero_state option" where
  "initHeroParticles pg cv innerWidth r =
     (if prefersReducedMotion pg then None
      else case byId pg ''heroParticles'' of
             None \<Rightarrow> None
           | Some c \<Rightarrow> Some (hero_closure cv innerWidth r))"

definition hero_observed :: "page \<Rightarrow> bool" where
  "hero_observed pg = (byId pg ''hero'' \<noteq> None \<and> hasIntersectionObserver pg)"

text \<open>The events that reach the loop once it runs.\<close>

datatype hero_event = Frame nat | Observe bool | Resize nat nat nat

fun hero_step :: "hero_state \<Rightarrow> hero_event \<Rightarrow> hero_state" where
  "hero_step s (Frame h) = frame_callback h s"
| "hero_step s (Observe b) = hero_observer b s"
| "hero_step s (Resize ow oh iw) = hero_resize ow oh iw s"

text \<open>
  One chain of frame requests: at most one callback is requested, its handle is the
  one held in \<open>animId\<close>, and handles are not reused.
\<close>

definition single_chain :: "hero_state \<Rightarrow> bool" where
  "single_chain s =
     (0 < nextFrame s
      \<and> (frames s = [] \<or> (\<exists>h. frames s = [h] \<and> animId s = Some h \<and> 0 < h \<and> h < nextFrame s)))"




text \<open>
  The order in which the browser calls the loop. A rendering update first runs the frame
  callbacks requested before it (\<open>run_frames\<close>) and then observes the intersections; an
  entry of the observer is delivered after the update that produced it and before the
  next one, so between two deliveries the requested frame has run. \<open>Render\<close> is one
  update with the entry delivered after it, if there is one; \<open>Broadcast\<close> is a resize
  broadcast.
\<close>

definition run_frames :: "hero_state \<Rightarrow> hero_state" where
  "run_frames s = foldl (\<lambda>s' h. frame_callback h s') s (frames s)"

datatype hero_update = Render "bool option" | Broadcast nat nat nat

fun hero_update_step :: "hero_state \<Rightarrow> hero_update \<Rightarrow> hero_state" where
  "hero_update_step s (Render entry) =
     (let s1 = run_frames s
      in case entry of None \<Rightarrow> s1 | Some b \<Rightarrow> hero_observer b s1)"
| "hero_update_step s (Broadcast ow oh iw) = hero_resize ow oh iw s"



section \<open>Gallery lightbox and mobile menu (main.js, lines 243-262 and 907-1128)\<close>

text \<open>
  Strings are byte strings, a character outside ASCII being its UTF-8 bytes: the
  separator of \<open>fullCaption\<close> is a space, an em dash and a space, the suffix of the
  \<open>aria-label\<close> a space and five Japanese characters.
\<close>

definition caption_sep :: string where
  "caption_sep = [CHR '' '', CHR 0xE2, CHR 0x80, CHR 0x94, CHR '' '']"

definition label_suffix :: string where
  "label_suffix =
     [CHR '' '', CHR 0xE3, CHR 0x82, CHR 0x92, CHR 0xE6, CHR 0x8B, CHR 0xA1, CHR 0xE5, CHR 0xA4,
      CHR 0xA7, CHR 0xE8, CHR 0xA1, CHR 0xA8, CHR 0xE7, CHR 0xA4, CHR 0xBA]"

definition is_digit :: "char \<Rightarrow> bool" where
  "is_digit c = (c \<in> set ''0123456789'')"

text \<open>
  \<open>s.replace(/([?&])k=\d+/, '$1k=new')\<close> for a one-letter key \<open>k\<close>: the leftmost
  match is replaced, the digits taken greedily.
\<close>

fun replace_dim :: "char \<Rightarrow> string \<Rightarrow> string \<Rightarrow> string" where
  "replace_dim k new (a # b # c # d # rest) =
     (if (a = CHR ''?'' \<or> a = CHR ''&'') \<and> b = k \<and> c = CHR ''='' \<and> is_digit d
      then a # k # CHR ''='' # new @ dropWhile is_digit rest
      else a # replace_dim k new (b # c # d # rest))"
| "replace_dim k new s = s"

definition toFullSizeUrl :: "string \<Rightarrow> string" where
  "toFullSizeUrl thumbUrl =
     replace_dim (CHR ''h'') ''800'' (replace_dim (CHR ''w'') ''1200'' thumbUrl)"

record item_data =
  src :: string
  alt :: string
  caption :: string
  desc :: string
  fullCaption :: string

text \<open>
  \<open>galleryItems[i]\<close> is \<open>undefined\<close> out of range, and \<open>$(selector, undefined)\<close>
  searches the whole document, the default of the parameter \<open>context\<close>.
\<close>

definition item_at :: "page \<Rightarrow> int \<Rightarrow> gallery_item option" where
  "item_at pg i =
     (if 0 \<le> i \<and> i < int (length (galleryItems pg)) then Some (galleryItems pg ! nat i)
      else None)"

definition getItemData :: "page \<Rightarrow> gallery_item option \<Rightarrow> item_data" where
  "getItemData pg item =
     (let it = (case item of None \<Rightarrow> documentMatch pg | Some i \<Rightarrow> i);
          cap = (case captionH3 it of None \<Rightarrow> [] | Some t \<Rightarrow> t);
          dsc = (case captionP it of None \<Rightarrow> [] | Some t \<Rightarrow> t)
      in \<lparr>src = (case img it of None \<Rightarrow> [] | Some (u, a) \<Rightarrow> toFullSizeUrl u),
          alt = (case img it of None \<Rightarrow> [] | Some (u, a) \<Rightarrow> a),
          caption = cap,
          desc = dsc,
          fullCaption = cap @ (if dsc \<noteq> [] then caption_sep @ dsc else [])\<rparr>)"

text \<open>
  The external animator (GSAP) by its contract: a tween on the image is pending until it
  completes or is killed; \<open>killTweensOf\<close> drops the pending tweens without running
  their \<open>onComplete\<close>. The fade-out carries the \<open>data\<close> its \<open>onComplete\<close> closes over.
\<close>

datatype tween = FadeOut item_data | FadeIn

datatype focus = Body | CloseButton | GalleryItem nat

datatype handler = OpenItem nat | OpenItemKey nat | CloseBox | Prev | Next | KeyNav | FocusTrap

datatype target = OnItem nat | OnClose | OnOverlay | OnPrev | OnNext | OnDocument | OnLightbox

record item_attrs =
  tabindex :: string
  role :: string
  ariaLabel :: string

text \<open>
  The state the lightbox and the mobile menu act on. \<open>scroll\<close> is the scroll lock they
  share. Of the image: \<open>imgSrc\<close>, \<open>imgAlt\<close>, its \<open>complete\<close> flag, whether
  \<open>fadeInLightboxImage\<close> is attached as \<open>load\<close> and as \<open>error\<close> listener (the DOM
  keeps one registration of a function per event), and its opacity and scale, \<open>None\<close>
  when cleared. \<open>counterText\<close> \<open>Some (a, b)\<close> is the text \<open>a / b\<close>. \<open>cache\<close> lists the
  addresses whose image is complete as soon as it is assigned. \<open>menuOpen\<close> stands for
  the classes and attributes of the hamburger and the menu, which change together.
\<close>

record ui_state =
  scroll :: scroll_state
  currentIndex :: int
  imgSrc :: string
  imgAlt :: string
  imgComplete :: bool
  loadListener :: bool
  errorListener :: bool
  imgOpacity :: "real option"
  imgScale :: "real option"
  tweens :: "tween list"
  capText :: string
  counterText :: "(int \<times> int) option"
  isOpen :: bool
  ariaHidden :: bool
  focused :: focus
  cache :: "string list"
  listeners :: "(target \<times> string \<times> handler) list"
  itemAttrs :: "item_attrs list"
  menuOpen :: bool

definition ui_init :: ui_state where
  "ui_init =
     \<lparr>scroll = scroll_init, currentIndex = 0, imgSrc = [], imgAlt = [], imgComplete = True,
      loadListener = False, errorListener = False, imgOpacity = None, imgScale = None,
      tweens = [], capText = [], counterText = None, isOpen = False, ariaHidden = True,
      focused = Body, cache = [], listeners = [], itemAttrs = [], menuOpen = False\<rparr>"

definition closeMobileMenu :: "page \<Rightarrow> ui_state \<Rightarrow> ui_state" where
  "closeMobileMenu pg s =
     (if byId pg ''hamburger'' = None \<or> byId pg ''mobileMenu'' = None then s
      else s\<lparr>menuOpen := False, scroll := unlockScroll (scroll s)\<rparr>)"

definition openMobileMenu :: "page \<Rightarrow> ui_state \<Rightarrow> ui_state" where
  "openMobileMenu pg s =
     (if byId pg ''hamburger'' = None \<or> byId pg ''mobileMenu'' = None then s
      else s\<lparr>menuOpen := True, scroll := lockScroll (scroll s)\<rparr>)"

text \<open>Assigning \<open>lightboxImg.src\<close>: the image is complete at once when it has no address
  or is cached.\<close>

definition set_src :: "string \<Rightarrow> ui_state \<Rightarrow> ui_state" where
  "set_src u s = s\<lparr>imgSrc := u, imgComplete := (u = [] \<or> u \<in> set (cache s))\<rparr>"

definition updateCounter :: "page \<Rightarrow> ui_state \<Rightarrow> ui_state" where
  "updateCounter pg s =
     (if byId pg ''lightboxCounter'' \<noteq> None
      then s\<lparr>counterText := Some (currentIndex s + 1, int (length (galleryItems pg)))\<rparr>
      else s)"

definition openLightbox :: "page \<Rightarrow> int \<Rightarrow> ui_state \<Rightarrow> ui_state" where
  "openLightbox pg index s =
     (let s1 = s\<lparr>currentIndex := index\<rparr>;
          data = getItemData pg (item_at pg (currentIndex s1));
          s2 = set_src (src data) s1;
          s3 = s2\<lparr>imgAlt := alt data, capText := fullCaption data\<rparr>;
          s4 = updateCounter pg s3;
          s5 = s4\<lparr>isOpen := True, ariaHidden := False\<rparr>;
          s6 = s5\<lparr>scroll := lockScroll (scroll s5)\<rparr>
      in s6\<lparr>focused := CloseButton\<rparr>)"

definition closeLightbox :: "page \<Rightarrow> ui_state \<Rightarrow> ui_state" where
  "closeLightbox pg s =
     (let s1 = (if hasGSAP pg then s\<lparr>tweens := [], imgOpacity := None, imgScale := None\<rparr>
                else s\<lparr>imgOpacity := None, imgScale := None\<rparr>);
          s2 = s1\<lparr>isOpen := False, ariaHidden := True\<rparr>;
          s3 = s2\<lparr>scroll := unlockScroll (scroll s2)\<rparr>
      in case item_at pg (currentIndex s3) of
           None \<Rightarrow> s3
         | Some it \<Rightarrow> s3\<lparr>focused := GalleryItem (nat (currentIndex s3))\<rparr>)"

definition fadeInLightboxImage :: "page \<Rightarrow> ui_state \<Rightarrow> ui_state" where
  "fadeInLightboxImage pg s =
     (if hasGSAP pg then s\<lparr>tweens := tweens s @ [FadeIn]\<rparr>
      else s\<lparr>imgOpacity := Some 1, imgScale := Some 1\<rparr>)"

definition updateLightboxContent :: "page \<Rightarrow> ui_state \<Rightarrow> ui_state" where
  "updateLightboxContent pg s =
     (let data = getItemData pg (item_at pg (currentIndex s))
      in if \<not> hasGSAP pg
         then updateCounter pg
                ((set_src (src data) s)\<lparr>imgAlt := alt data, capText := fullCaption data\<rparr>)
         else s\<lparr>tweens := [FadeOut data]\<rparr>)"

text \<open>
  \<open>%\<close> is the remainder with the sign of the dividend, \<open>smod\<close> on integers. The
  handlers exist only where \<open>galleryItems\<close> is not empty, so the divisor is never 0.
\<close>

definition showPrev :: "page \<Rightarrow> ui_state \<Rightarrow> ui_state" where
  "showPrev pg s =
     updateLightboxContent pg
       (s\<lparr>currentIndex := (currentIndex s - 1 + int (length (galleryItems pg)))
                             smod int (length (galleryItems pg))\<rparr>)"

definition showNext :: "page \<Rightarrow> ui_state \<Rightarrow> ui_state" where
  "showNext pg s =
     updateLightboxContent pg
       (s\<lparr>currentIndex := (currentIndex s + 1) smod int (length (galleryItems pg))\<rparr>)"

text \<open>The \<open>onComplete\<close> of the fade-out, in the order of the source.\<close>

definition fadeOut_onComplete :: "page \<Rightarrow> item_data \<Rightarrow> ui_state \<Rightarrow> ui_state" where
  "fadeOut_onComplete pg data s =
     (let s1 = s\<lparr>imgAlt := alt data, capText := fullCaption data\<rparr>;
          s2 = updateCounter pg s1;
          s3 = s2\<lparr>loadListener := False, errorListener := False\<rparr>;
          s4 = s3\<lparr>loadListener := True, errorListener := True\<rparr>;
          s5 = set_src (src data) s4
      in if imgComplete s5
         then fadeInLightboxImage pg (s5\<lparr>loadListener := False, errorListener := False\<rparr>)
         else s5)"

text \<open>
  What reaches the lightbox: its handlers, the completion of a tween, and the image's
  \<open>load\<close> and \<open>error\<close> events (a listener registered with \<open>once\<close> is removed when it
  runs).
\<close>

datatype lb_event =
  ShowPrev | ShowNext | Open int | Close | FadeOutDone | FadeInDone | ImgLoad | ImgError

definition fadeOut_done :: "page \<Rightarrow> ui_state \<Rightarrow> ui_state" where
  "fadeOut_done pg s =
     (case [d. FadeOut d \<leftarrow> tweens s] of
        [] \<Rightarrow> s
      | d # ds \<Rightarrow>
          fadeOut_onComplete pg d
            (s\<lparr>tweens := remove1 (FadeOut d) (tweens s), imgOpacity := Some 0,
               imgScale := Some 0.95\<rparr>))"

definition fadeIn_done :: "ui_state \<Rightarrow> ui_state" where
  "fadeIn_done s =
     (if FadeIn \<in> set (tweens s)
      then s\<lparr>tweens := remove1 FadeIn (tweens s), imgOpacity := Some 1, imgScale := Some 1\<rparr>
      else s)"

definition img_load :: "page \<Rightarrow> ui_state \<Rightarrow> ui_state" where
  "img_load pg s =
     (let s1 = s\<lparr>imgComplete := True, cache := imgSrc s # cache s\<rparr>
      in if loadListener s1 then fadeInLightboxImage pg (s1\<lparr>loadListener := False\<rparr>) else s1)"

definition img_error :: "page \<Rightarrow> ui_state \<Rightarrow> ui_state" where
  "img_error pg s =
     (let s1 = s\<lparr>imgComplete := True\<rparr>
      in if errorListener s1 then fadeInLightboxImage pg (s1\<lparr>errorListener := False\<rparr>) else s1)"

fun lb_step :: "page \<Rightarrow> ui_state \<Rightarrow> lb_event \<Rightarrow> ui_state" where
  "lb_step pg s ShowPrev = showPrev pg s"
| "lb_step pg s ShowNext = showNext pg s"
| "lb_step pg s (Open i) = openLightbox pg i s"
| "lb_step pg s Close = closeLightbox pg s"
| "lb_step pg s FadeOutDone = fadeOut_done pg s"
| "lb_step pg s FadeInDone = fadeIn_done s"
| "lb_step pg s ImgLoad = img_load pg s"
| "lb_step pg s ImgError = img_error pg s"

definition lb_run :: "page \<Rightarrow> lb_event list \<Rightarrow> ui_state \<Rightarrow> ui_state" where
  "lb_run pg evs s = foldl (lb_step pg) s evs"

text \<open>The document's \<open>keydown\<close> listener of the lightbox.\<close>

definition keyNav :: "page \<Rightarrow> string \<Rightarrow> ui_state \<Rightarrow> ui_state" where
  "keyNav pg key s =
     (if \<not> isOpen s then s
      else if key = ''Escape'' then closeLightbox pg s
      else if key = ''ArrowLeft'' then showPrev pg s
      else if key = ''ArrowRight'' then showNext pg s
      else s)"

text \<open>
  \<open>initLightbox\<close>. Past the two guards it sets the attributes of every gallery item
  and attaches the listeners; \<open>x.addEventListener\<close> reads a property of \<open>x\<close>, and so
  does \<open>$(selector, lightbox)\<close> of \<open>lightbox\<close>; the overlay is reached through \<open>?.\<close>.
\<close>

definition item_setup :: "gallery_item \<Rightarrow> item_attrs" where
  "item_setup it =
     \<lparr>tabindex = ''0'', role = ''button'',
      ariaLabel = (case captionH3 it of None \<Rightarrow> [] | Some t \<Rightarrow> t) @ label_suffix\<rparr>"

definition item_listeners :: "nat \<Rightarrow> (target \<times> string \<times> handler) list" where
  "item_listeners i = [(OnItem i, ''click'', OpenItem i), (OnItem i, ''keydown'', OpenItemKey i)]"

definition initLightbox :: "page \<Rightarrow> ui_state \<Rightarrow> js_error + ui_state" where
  "initLightbox pg s =
     (if byId pg ''lightbox'' = None \<or> byId pg ''lightboxImage'' = None
         \<or> byId pg ''lightboxCaption'' = None \<or> byId pg ''lightboxClose'' = None
         \<or> byId pg ''lightboxPrev'' = None \<or> byId pg ''lightboxNext'' = None
      then Inr s
      else if galleryItems pg = [] then Inr s
      else
        let s1 = s\<lparr>currentIndex := 0,
                   itemAttrs := map item_setup (galleryItems pg),
                   listeners := listeners s
                     @ concat (map item_listeners [0 ..< length (galleryItems pg)])\<rparr>
        in bind_js (deref (byId pg ''lightboxClose'')) (\<lambda>c.
           bind_js (deref (byId pg ''lightbox'')) (\<lambda>l.
           bind_js (deref (byId pg ''lightboxPrev'')) (\<lambda>p.
           bind_js (deref (byId pg ''lightboxNext'')) (\<lambda>n.
           bind_js (deref (byId pg ''lightbox'')) (\<lambda>l'.
             Inr (s1\<lparr>listeners := listeners s1
                    @ [(OnClose, ''click'', CloseBox)]
                    @ (if overlay pg then [(OnOverlay, ''click'', CloseBox)] else [])
                    @ [(OnPrev, ''click'', Prev), (OnNext, ''click'', Next),
                       (OnDocument, ''keydown'', KeyNav),
                       (OnLightbox, ''keydown'', FocusTrap)]\<rparr>)))))))"

section \<open>The start of the page (main.js, lines 115-140, 233 and 1130)\<close>

text \<open>
  The module runs \<open>initNavObserver()\<close> and \<open>initLightbox()\<close> as it loads;
  \<open>completeLoading\<close> then calls \<open>initHeroParticles()\<close> when GSAP is there. A throw
  would end the run. \<open>hdr\<close>, \<open>cv\<close> and \<open>innerWidth\<close> are the measurements read.
\<close>

record site_state =
  ui :: ui_state
  nav :: nav_state
  hero :: "hero_state option"

definition site_start :: "page \<Rightarrow> int option \<Rightarrow> nat \<times> nat \<Rightarrow> nat \<Rightarrow> (nat \<Rightarrow> real) \<Rightarrow> js_error + site_state" where
  "site_start pg hdr cv innerWidth r =
     bind_js (nav_start pg hdr) (\<lambda>n.
     bind_js (initLightbox pg ui_init) (\<lambda>u.
       Inr \<lparr>ui = u, nav = n,
            hero = (if hasGSAP pg then initHeroParticles pg cv innerWidth r else None)\<rparr>))"

text \<open>Pages for the examples: a gallery of three items, with and without the modal.\<close>

definition gallery3 :: "gallery_item list" where
  "gallery3 =
     [\<lparr>img = Some (''a.jpg?w=600&h=400'', ''A''), captionH3 = Some ''One'', captionP = None\<rparr>,
      \<lparr>img = Some (''b.jpg?w=600&h=400'', ''B''), captionH3 = Some ''Two'', captionP = None\<rparr>,
      \<lparr>img = Some (''c.jpg?w=600&h=400'', ''C''), captionH3 = Some ''Three'', captionP = None\<rparr>]"

definition full_page :: page where
  "full_page =
     \<lparr>ids = [''header'', ''hamburger'', ''mobileMenu'', ''hero'', ''heroParticles'', ''about'',
             ''topics'', ''exhibition'', ''access'', ''lightbox'', ''lightboxImage'',
             ''lightboxCaption'', ''lightboxClose'', ''lightboxPrev'', ''lightboxNext'',
             ''lightboxCounter''],
      galleryItems = gallery3,
      documentMatch = \<lparr>img = None, captionH3 = Some ''One'', captionP = None\<rparr>,
      overlay = True,
      navLinks = [''about'', ''topics'', ''exhibition'', ''access''],
      hasGSAP = True, prefersReducedMotion = False, hasIntersectionObserver = True\<rparr>"

definition bare_page :: page where
  "bare_page =
     \<lparr>ids = [''header'', ''topics'', ''exhibition'', ''access''],
      galleryItems = gallery3,
      documentMatch = \<lparr>img = None, captionH3 = Some ''One'', captionP = None\<rparr>,
      overlay = False,
      navLinks = [''topics'', ''exhibition'', ''access''],
      hasGSAP = True, prefersReducedMotion = False, hasIntersectionObserver = True\<rparr>"

definition page5 :: page where
  "page5 =
     full_page\<lparr>galleryItems := gallery3 @
       [\<lparr>img = Some (''d.jpg?w=600&h=400'', ''D''), captionH3 = Some ''Four'', captionP = None\<rparr>,
        \<lparr>img = Some (''e.jpg?w=600&h=400'', ''E''), captionH3 = Some ''Five'', captionP = None\<rparr>]\<rparr>"

section \<open>Notions for the statements about the scroll lock of the lightbox\<close>

text \<open>The two users of the scroll lock together: the lightbox's events and the menu.\<close>

datatype ui_event = Lightbox lb_event | MenuOpen | MenuClose

fun ui_step :: "page \<Rightarrow> ui_state \<Rightarrow> ui_event \<Rightarrow> ui_state" where
  "ui_step pg s (Lightbox e) = lb_step pg s e"
| "ui_step pg s MenuOpen = openMobileMenu pg s"
| "ui_step pg s MenuClose = closeMobileMenu pg s"

definition ui_run :: "page \<Rightarrow> ui_event list \<Rightarrow> ui_state \<Rightarrow> ui_state" where
  "ui_run pg evs s = foldl (ui_step pg) s evs"

text \<open>What may happen while the lightbox stays open: anything but opening and closing.\<close>

definition navigation :: "lb_event \<Rightarrow> bool" where
  "navigation e = (case e of Open i \<Rightarrow> False | Close \<Rightarrow> False | _ \<Rightarrow> True)"

chapter \<open>Properties\<close>

section \<open>Scroll lock counter\<close>

lemma lock_inv_init: "lock_inv scroll_init"
  by (simp add: lock_inv_def scroll_init_def)

lemma lock_inv_lockScroll: "lock_inv s \<Longrightarrow> lock_inv (lockScroll s)"
  by (auto simp: lock_inv_def lockScroll_def Let_def)

lemma lock_inv_unlockScroll: "lock_inv s \<Longrightarrow> lock_inv (unlockScroll s)"
  by (auto simp: lock_inv_def unlockScroll_def Let_def)

lemma lock_inv_step: "lock_inv s \<Longrightarrow> lock_inv (scroll_step s c)"
  by (cases c) (simp_all add: lock_inv_lockScroll lock_inv_unlockScroll)

lemma lock_inv_run: "lock_inv s \<Longrightarrow> lock_inv (run_calls cs s)"
  unfolding run_calls_def by (induction cs arbitrary: s) (simp_all add: lock_inv_step)

lemma run_calls_snoc: "run_calls (cs @ [c]) s = scroll_step (run_calls cs s) c"
  by (simp add: run_calls_def)

lemma count_lockScroll: "scrollLockCount (lockScroll s) = scrollLockCount s + 1"
  by (simp add: lockScroll_def Let_def)

lemma count_unlockScroll: "scrollLockCount (unlockScroll s) = max 0 (scrollLockCount s - 1)"
  by (simp add: unlockScroll_def Let_def)

lemma unlockScroll_at_zero:
  "lock_inv s \<Longrightarrow> scrollLockCount s = 0 \<Longrightarrow> unlockScroll s = s"
  by (simp add: lock_inv_def unlockScroll_def Let_def)

lemma paired_snoc: "paired (cs @ [c]) = (paired cs \<and> unlocks (cs @ [c]) \<le> locks (cs @ [c]))"
  by (simp add: paired_def prefixes_snoc)

lemma paired_count:
  "paired cs \<Longrightarrow> scrollLockCount (run_calls cs scroll_init) = locks cs - unlocks cs"
proof (induction cs rule: rev_induct)
  case Nil
  then show ?case by (simp add: run_calls_def scroll_init_def locks_def unlocks_def)
next
  case (snoc c cs)
  then have ih: "scrollLockCount (run_calls cs scroll_init) = locks cs - unlocks cs"
    and le: "unlocks (cs @ [c]) \<le> locks (cs @ [c])"
    by (simp_all add: paired_snoc)
  show ?case
  proof (cases c)
    case LockScroll
    then show ?thesis using ih
      by (simp add: run_calls_snoc count_lockScroll locks_def unlocks_def)
  next
    case UnlockScroll
    then show ?thesis using ih le
      by (simp add: run_calls_snoc count_unlockScroll locks_def unlocks_def)
  qed
qed

text \<open>The counter is the largest surplus of acquisitions over a suffix of the calls.\<close>

lemma count_ge_suffix:
  "suffix suf cs \<Longrightarrow> locks suf - unlocks suf \<le> scrollLockCount (run_calls cs scroll_init)"
proof (induction cs arbitrary: suf rule: rev_induct)
  case Nil
  then show ?case by (simp add: run_calls_def scroll_init_def locks_def unlocks_def)
next
  case (snoc c cs)
  have nonneg: "0 \<le> scrollLockCount (run_calls cs scroll_init)"
    using lock_inv_run[OF lock_inv_init] by (simp add: lock_inv_def)
  show ?case
  proof (cases "suf = []")
    case True
    then show ?thesis using lock_inv_run[OF lock_inv_init, of "cs @ [c]"]
      by (simp add: lock_inv_def locks_def unlocks_def)
  next
    case False
    with snoc.prems obtain s' where s': "suffix s' cs" "suf = s' @ [c]"
      by (auto simp: suffix_snoc)
    from snoc.IH[OF s'(1)] show ?thesis using nonneg s'(2)
      by (cases c) (simp_all add: run_calls_snoc count_lockScroll count_unlockScroll locks_def unlocks_def)
  qed
qed

lemma count_attained:
  "\<exists>suf. suffix suf cs \<and> locks suf - unlocks suf = scrollLockCount (run_calls cs scroll_init)"
proof (induction cs rule: rev_induct)
  case Nil
  then show ?case by (simp add: run_calls_def scroll_init_def locks_def unlocks_def)
next
  case (snoc c cs)
  then obtain s' where s': "suffix s' cs"
      "locks s' - unlocks s' = scrollLockCount (run_calls cs scroll_init)" by blast
  have nonneg: "0 \<le> scrollLockCount (run_calls cs scroll_init)"
    using lock_inv_run[OF lock_inv_init] by (simp add: lock_inv_def)
  show ?case
  proof (cases "c = UnlockScroll \<and> scrollLockCount (run_calls cs scroll_init) = 0")
    case True
    then have "scrollLockCount (run_calls (cs @ [c]) scroll_init) = 0"
      by (simp add: run_calls_snoc count_unlockScroll)
    then show ?thesis by (intro exI[of _ "[]"]) (simp add: locks_def unlocks_def)
  next
    case False
    have "suffix (s' @ [c]) (cs @ [c])" using s'(1) by simp
    moreover have "locks (s' @ [c]) - unlocks (s' @ [c]) = scrollLockCount (run_calls (cs @ [c]) scroll_init)"
      using False s'(2) nonneg
      by (cases c) (simp_all add: run_calls_snoc count_lockScroll count_unlockScroll locks_def unlocks_def)
    ultimately show ?thesis by blast
  qed
qed

lemma flag_surplus: "noScroll (run_calls cs scroll_init) = surplus cs"
proof -
  have inv: "lock_inv (run_calls cs scroll_init)" by (rule lock_inv_run[OF lock_inv_init])
  show ?thesis
  proof
    assume "noScroll (run_calls cs scroll_init)"
    with inv have "0 < scrollLockCount (run_calls cs scroll_init)" by (simp add: lock_inv_def)
    moreover obtain suf where "suffix suf cs"
        "locks suf - unlocks suf = scrollLockCount (run_calls cs scroll_init)"
      using count_attained[of cs] by blast
    ultimately have "suffix suf cs \<and> unlocks suf < locks suf" by simp
    then show "surplus cs"
      unfolding surplus_def list_ex_iff by (intro bexI[of _ suf]) simp_all
  next
    assume "surplus cs"
    then obtain suf where "suffix suf cs" "unlocks suf < locks suf"
      by (auto simp: surplus_def list_ex_iff)
    with count_ge_suffix[of suf cs] have "0 < scrollLockCount (run_calls cs scroll_init)" by simp
    with inv show "noScroll (run_calls cs scroll_init)" by (simp add: lock_inv_def)
  qed
qed

text \<open>
  Claim C1, as the code has it. For every finite sequence of \<open>lockScroll\<close> and
  \<open>unlockScroll\<close> calls from the initial state: the counter is never negative; the
  \<open>no-scroll\<close> class is set exactly when the counter is positive; \<open>unlockScroll\<close>
  at counter 0 changes nothing; the class is set exactly when some suffix of the calls
  holds more acquisitions than releases; and when no prefix holds more releases than
  acquisitions (calls made in pairs), the counter is the difference of the two numbers
  of calls and the class is set exactly when strictly more \<open>lockScroll\<close> than
  \<open>unlockScroll\<close> calls have occurred.
\<close>

theorem scroll_lock_counter:
  "0 \<le> scrollLockCount (run_calls cs scroll_init)
   \<and> noScroll (run_calls cs scroll_init) = (0 < scrollLockCount (run_calls cs scroll_init))
   \<and> (scrollLockCount (run_calls cs scroll_init) = 0 \<longrightarrow>
        unlockScroll (run_calls cs scroll_init) = run_calls cs scroll_init)
   \<and> noScroll (run_calls cs scroll_init) = surplus cs
   \<and> (paired cs \<longrightarrow>
        scrollLockCount (run_calls cs scroll_init) = locks cs - unlocks cs
        \<and> noScroll (run_calls cs scroll_init) = (unlocks cs < locks cs))"
proof -
  have inv: "lock_inv (run_calls cs scroll_init)" by (rule lock_inv_run[OF lock_inv_init])
  then have a: "0 \<le> scrollLockCount (run_calls cs scroll_init)"
    and b: "noScroll (run_calls cs scroll_init) = (0 < scrollLockCount (run_calls cs scroll_init))"
    by (simp_all add: lock_inv_def)
  have c: "scrollLockCount (run_calls cs scroll_init) = 0 \<longrightarrow>
        unlockScroll (run_calls cs scroll_init) = run_calls cs scroll_init"
    using unlockScroll_at_zero[OF inv] by simp
  have d: "paired cs \<longrightarrow>
        scrollLockCount (run_calls cs scroll_init) = locks cs - unlocks cs
        \<and> noScroll (run_calls cs scroll_init) = (unlocks cs < locks cs)"
    using paired_count[of cs] b by auto
  from a b c d flag_surplus[of cs] show ?thesis by blast
qed

theorem scroll_lock_counter_witness:
  "paired [LockScroll, LockScroll, UnlockScroll]
   \<and> noScroll (run_calls [LockScroll, LockScroll, UnlockScroll] scroll_init)
   \<and> scrollLockCount (run_calls [LockScroll, LockScroll, UnlockScroll] scroll_init) = 1
   \<and> scrollLockCount (run_calls [LockScroll, UnlockScroll, UnlockScroll] scroll_init) = 0
   \<and> unlockScroll (run_calls [LockScroll, UnlockScroll, UnlockScroll] scroll_init)
       = run_calls [LockScroll, UnlockScroll, UnlockScroll] scroll_init"
proof -
  have p: "paired [LockScroll, LockScroll, UnlockScroll]"
    by (simp add: paired_def locks_def unlocks_def)
  have z: "scrollLockCount (run_calls [LockScroll, UnlockScroll, UnlockScroll] scroll_init) = 0"
    by (simp add: run_calls_def scroll_init_def lockScroll_def unlockScroll_def Let_def)
  show ?thesis
    using p z scroll_lock_counter[of "[LockScroll, LockScroll, UnlockScroll]"]
      scroll_lock_counter[of "[LockScroll, UnlockScroll, UnlockScroll]"]
    by (simp add: locks_def unlocks_def)
qed

text \<open>
  Claim C1 as stated fails once a release has been floored at 0: after
  \<open>unlockScroll\<close>, \<open>lockScroll\<close> the class is set although the two calls are
  equal in number.
\<close>

theorem scroll_flag_counterexample:
  "noScroll (run_calls [UnlockScroll, LockScroll] scroll_init)
   \<and> \<not> unlocks [UnlockScroll, LockScroll] < locks [UnlockScroll, LockScroll]"
  by (simp add: run_calls_def scroll_init_def lockScroll_def unlockScroll_def Let_def
      locks_def unlocks_def)

section \<open>Resize broadcaster\<close>

lemma broadcaster_init_fields:
  "resizeCallbacks (broadcaster_init cbs a) = cbs"
  "resizeTimer (broadcaster_init cbs a) = None"
  "timers (broadcaster_init cbs a) = []"
  "app (broadcaster_init cbs a) = a"
proof -
  have g: "\<And>b. foldl (\<lambda>b cb. onResize cb b) b cbs
      = b\<lparr>resizeCallbacks := resizeCallbacks b @ cbs\<rparr>"
    by (induction cbs) (simp_all add: onResize_def)
  show "resizeCallbacks (broadcaster_init cbs a) = cbs"
    "resizeTimer (broadcaster_init cbs a) = None"
    "timers (broadcaster_init cbs a) = []"
    "app (broadcaster_init cbs a) = a"
    by (simp_all add: broadcaster_init_def g)
qed

lemma advance_not_due:
  "armed due b \<Longrightarrow> now < due \<Longrightarrow> advance now b = b"
  by (auto simp: armed_def advance_def is_due_def)

lemma advance_due:
  "armed due b \<Longrightarrow> due \<le> now \<Longrightarrow> advance now b = broadcast (b\<lparr>timers := []\<rparr>)"
  by (auto simp: armed_def advance_def is_due_def)

lemma advance_idle: "timers b = [] \<Longrightarrow> advance now b = b"
  by (simp add: advance_def)

lemma listener_armed:
  "armed due b \<or> timers b = [] \<Longrightarrow> armed (now + 200) (resize_listener now b)"
  by (auto simp: armed_def resize_listener_def clearTimeout_def Let_def split: option.splits)

lemma listener_frame:
  "app (resize_listener now b) = app b"
  "resizeCallbacks (resize_listener now b) = resizeCallbacks b"
  by (simp_all add: resize_listener_def Let_def)

lemma onResize_order:
  "resizeCallbacks (foldl (\<lambda>b cb. onResize cb b) b cbs) = resizeCallbacks b @ cbs"
  by (induction cbs arbitrary: b) (simp_all add: onResize_def)

lemma burst_armed:
  "armed due b \<or> timers b = [] \<Longrightarrow> ts \<noteq> [] \<Longrightarrow> within_quiet ts \<Longrightarrow>
   (armed due b \<longrightarrow> hd ts < due) \<Longrightarrow>
   armed (last ts + 200) (burst ts b) \<and> app (burst ts b) = app b
   \<and> resizeCallbacks (burst ts b) = resizeCallbacks b"
proof (induction ts arbitrary: b due)
  case Nil
  then show ?case by simp
next
  case (Cons t ts)
  have adv: "advance t b = b"
    using Cons.prems(1,4) by (auto simp: advance_not_due advance_idle)
  let ?b1 = "resize_listener t b"
  have a1: "armed (t + 200) ?b1" using Cons.prems(1) by (rule listener_armed)
  show ?case
  proof (cases ts)
    case Nil
    then show ?thesis using a1 adv by (simp add: listener_frame)
  next
    case (Cons u us)
    with Cons.prems(3) have wq: "within_quiet ts" and lt: "hd ts < t + 200"
      by (simp_all add: within_quiet_def)
    from Cons.IH[of "t + 200" ?b1] a1 wq lt Cons
    have "armed (last ts + 200) (burst ts ?b1) \<and> app (burst ts ?b1) = app ?b1
      \<and> resizeCallbacks (burst ts ?b1) = resizeCallbacks ?b1" by simp
    then show ?thesis using adv Cons by (simp add: listener_frame)
  qed
qed

text \<open>
  Claim C4. Take a broadcaster with no timeout pending and a burst of \<open>N \<ge> 1\<close> resize
  signals at the times \<open>ts\<close>, each less than 200 ms after its predecessor. When the
  event loop has run to a time \<open>T\<close>, the page is untouched if \<open>T\<close> is before the
  last signal plus 200 ms; otherwise it is the result of one broadcast: every
  registered callback applied once, in the order of the array. Running the event loop
  further changes nothing (no second broadcast). \<open>onResize\<close> appends, so the order of
  the array is the order of registration.
\<close>

theorem resize_burst_one_broadcast:
  assumes "timers b = []" and "ts \<noteq> []" and "within_quiet ts"
  shows "app (advance T (burst ts b))
           = (if last ts + 200 \<le> T then foldl (\<lambda>a cb. cb a) (app b) (resizeCallbacks b)
              else app b)
       \<and> (last ts + 200 \<le> T \<longrightarrow> T \<le> T' \<longrightarrow>
            advance T' (advance T (burst ts b)) = advance T (burst ts b))
       \<and> resizeCallbacks (foldl (\<lambda>b cb. onResize cb b) b cbs) = resizeCallbacks b @ cbs"
proof -
  let ?b = "burst ts b"
  have "armed (last ts + 200) ?b \<and> app ?b = app b
      \<and> resizeCallbacks ?b = resizeCallbacks b"
    by (rule burst_armed[where due = 0]) (simp_all add: assms armed_def)
  then have ar: "armed (last ts + 200) ?b" and ap: "app ?b = app b"
    and cb: "resizeCallbacks ?b = resizeCallbacks b"
    by simp_all
  have 1: "app (advance T ?b)
      = (if last ts + 200 \<le> T then foldl (\<lambda>a cb. cb a) (app b) (resizeCallbacks b) else app b)"
  proof (cases "last ts + 200 \<le> T")
    case True
    then show ?thesis using advance_due[OF ar] ap cb by (simp add: broadcast_def)
  next
    case False
    then show ?thesis using advance_not_due[OF ar, of T] ap by simp
  qed
  have 2: "last ts + 200 \<le> T \<longrightarrow> T \<le> T' \<longrightarrow> advance T' (advance T ?b) = advance T ?b"
  proof (intro impI)
    assume "last ts + 200 \<le> T"
    then have "advance T ?b = broadcast (?b\<lparr>timers := []\<rparr>)" by (rule advance_due[OF ar])
    then have "timers (advance T ?b) = []" by (simp add: broadcast_def)
    then show "advance T' (advance T ?b) = advance T ?b" by (rule advance_idle)
  qed
  from 1 2 onResize_order[of b cbs] show ?thesis by blast
qed

theorem resize_burst_one_broadcast_witness:
  "timers (broadcaster_init [\<lambda>l. l @ [1::nat], \<lambda>l. l @ [2]] []) = []
   \<and> within_quiet [0, 150, 300]
   \<and> app (advance 499 (burst [0, 150, 300]
         (broadcaster_init [\<lambda>l. l @ [1::nat], \<lambda>l. l @ [2]] []))) = []
   \<and> app (advance 500 (burst [0, 150, 300]
         (broadcaster_init [\<lambda>l. l @ [1::nat], \<lambda>l. l @ [2]] []))) = [1, 2]
   \<and> app (advance 900 (advance 500 (burst [0, 150, 300]
         (broadcaster_init [\<lambda>l. l @ [1::nat], \<lambda>l. l @ [2]] [])))) = [1, 2]"
proof -
  let ?b = "broadcaster_init [\<lambda>l. l @ [1::nat], \<lambda>l. l @ [2]] []"
  have i: "timers ?b = []" by (simp add: broadcaster_init_fields)
  have w: "within_quiet [0, 150, 300]" by (simp add: within_quiet_def)
  have n: "[0, 150, 300::nat] \<noteq> []" by simp
  show ?thesis
    using i w resize_burst_one_broadcast[OF i n w, of 499 499 "[]"]
      resize_burst_one_broadcast[OF i n w, of 500 900 "[]"]
    by (simp add: broadcaster_init_fields)
qed

section \<open>Navigation observer\<close>

lemma length_disconnect: "length (disconnect r os) = length os"
  by (simp add: disconnect_def)

lemma initNavObserver_Inr:
  "hasIntersectionObserver pg \<Longrightarrow> \<exists>s'. initNavObserver pg s = Inr s'"
  by (simp add: initNavObserver_def Let_def)

lemma initNavObserver_Inl:
  "\<not> hasIntersectionObserver pg \<Longrightarrow> initNavObserver pg s = Inl ReferenceError"
  by (simp add: initNavObserver_def Let_def)

lemma initNavObserver_result:
  assumes "initNavObserver pg s = Inr s'"
  shows "nav_ok s'"
    and "headerHeight s' = headerHeight s"
    and "length (observers s') = Suc (length (observers s))"
    and "navObserver s' = Some (length (observers s))"
    and "observed (observers s' ! length (observers s)) = filter (\<lambda>i. i \<in> set (ids pg)) NAV_SECTION_IDS"
    and "navObserver s = Some r \<Longrightarrow> r < length (observers s) \<Longrightarrow> observed (observers s' ! r) = []"
  using assms
  by (auto simp: initNavObserver_def Let_def nav_ok_def nth_append length_disconnect
      disconnect_def byId_def split: option.splits if_splits)

lemma nav_ok_header_resize: "nav_ok s \<Longrightarrow> header_resize pg hdr s = Inr s' \<Longrightarrow> nav_ok s'"
  using initNavObserver_result(1)[of pg _ s']
  by (auto simp: header_resize_def split: option.splits if_splits)

lemma header_resize_Inr:
  "hasIntersectionObserver pg \<Longrightarrow> \<exists>s'. header_resize pg hdr s = Inr s'"
  using initNavObserver_Inr[of pg] by (auto simp: header_resize_def split: option.splits)

lemma nav_run_snoc: "nav_run pg (hs @ [h]) s = bind_js (nav_run pg hs s) (header_resize pg h)"
  by (simp add: nav_run_def)

lemma nav_ok_run:
  "hasIntersectionObserver pg \<Longrightarrow> nav_ok s \<Longrightarrow> \<exists>s'. nav_run pg hs s = Inr s' \<and> nav_ok s'"
proof (induction hs rule: rev_induct)
  case Nil
  then show ?case by (simp add: nav_run_def)
next
  case (snoc h hs)
  then obtain s1 where s1: "nav_run pg hs s = Inr s1" "nav_ok s1" by blast
  obtain s2 where s2: "header_resize pg h s1 = Inr s2"
    using header_resize_Inr[OF snoc.prems(1)] by blast
  have "nav_ok s2" using s1(2) s2 by (rule nav_ok_header_resize)
  then show ?case using s1(1) s2 by (simp add: nav_run_snoc bind_js_def)
qed

lemma nav_start_ok:
  "hasIntersectionObserver pg \<Longrightarrow> \<exists>s0. nav_start pg hdr = Inr s0 \<and> nav_ok s0"
  using initNavObserver_Inr[of pg "nav_blank hdr"] initNavObserver_result(1)[of pg "nav_blank hdr"]
  by (auto simp: nav_start_def)

lemma header_resize_same: "header_resize pg (Some (headerHeight s)) s = Inr s"
  by (simp add: header_resize_def)

lemma header_resize_absent: "header_resize pg None s = Inr s"
  by (simp add: header_resize_def)

lemma header_resize_rebuild:
  assumes "hasIntersectionObserver pg" and "nav_ok s" and "h \<noteq> headerHeight s"
  shows "\<exists>s'. header_resize pg (Some h) s = Inr s' \<and> nav_ok s' \<and> headerHeight s' = h
           \<and> navObserver s' = Some (length (observers s))
           \<and> navObserver s' \<noteq> navObserver s
           \<and> observed (observers s' ! the (navObserver s)) = []"
proof -
  let ?s1 = "s\<lparr>headerHeight := h\<rparr>"
  obtain s' where s': "initNavObserver pg ?s1 = Inr s'"
    using initNavObserver_Inr[OF assms(1)] by blast
  from assms(2) obtain r where r: "navObserver s = Some r" "r < length (observers s)"
    by (auto simp: nav_ok_def split: option.splits)
  have e: "header_resize pg (Some h) s = Inr s'" using assms(3) s' by (simp add: header_resize_def)
  have 1: "nav_ok s'" using s' by (rule initNavObserver_result(1))
  have 2: "headerHeight s' = h" using initNavObserver_result(2)[OF s'] by simp
  have 3: "navObserver s' = Some (length (observers s))"
    using initNavObserver_result(4)[OF s'] by simp
  have 4: "navObserver s' \<noteq> navObserver s" using 3 r by simp
  have 5: "observed (observers s' ! the (navObserver s)) = []"
    using initNavObserver_result(6)[OF s', of r] r by simp
  from e 1 2 3 4 5 show ?thesis by blast
qed

lemma header_resize_height:
  "header_resize pg m s = Inr s' \<Longrightarrow>
     headerHeight s' = (case m of None \<Rightarrow> headerHeight s | Some x \<Rightarrow> x)"
  using initNavObserver_result(2)[of pg _ s']
  by (auto simp: header_resize_def split: option.splits if_splits)

lemma nav_start_eq:
  "hasIntersectionObserver pg \<Longrightarrow>
     nav_start pg hdr
       = Inr \<lparr>headerHeight = start_height hdr, navObserver = Some 0,
              observers =
                [\<lparr>options = \<lparr>io_root = None,
                                 rootMargin = [Px (- start_height hdr), Px 0, Percent (- 40), Px 0],
                                 threshold = 0\<rparr>,
                  observed = filter (\<lambda>i. i \<in> set (ids pg)) NAV_SECTION_IDS\<rparr>]\<rparr>"
  by (simp add: nav_start_def nav_blank_def initNavObserver_def Let_def nav_options_def
      start_height_def byId_def)

lemma nav_run_held:
  "hasIntersectionObserver pg \<Longrightarrow> nav_ok s \<Longrightarrow>
     \<exists>s'. nav_run pg hs s = Inr s' \<and> nav_ok s'
       \<and> headerHeight s'
           = foldl (\<lambda>h m. case m of None \<Rightarrow> h | Some x \<Rightarrow> x) (headerHeight s) hs"
proof (induction hs rule: rev_induct)
  case Nil
  then show ?case by (simp add: nav_run_def)
next
  case (snoc m hs)
  then obtain s1 where s1: "nav_run pg hs s = Inr s1" "nav_ok s1"
    "headerHeight s1 = foldl (\<lambda>h m. case m of None \<Rightarrow> h | Some x \<Rightarrow> x) (headerHeight s) hs"
    by blast
  obtain s2 where s2: "header_resize pg m s1 = Inr s2"
    using header_resize_Inr[OF snoc.prems(1)] by blast
  have "nav_ok s2" using s1(2) s2 by (rule nav_ok_header_resize)
  moreover have "headerHeight s2 = (case m of None \<Rightarrow> headerHeight s1 | Some x \<Rightarrow> x)"
    using s2 by (rule header_resize_height)
  ultimately show ?case using s1 s2
    by (cases m) (simp_all add: nav_run_snoc bind_js_def)
qed

lemma nav_ok_options:
  "nav_ok s \<Longrightarrow>
     \<exists>k. navObserver s = Some k \<and> k < length (observers s)
       \<and> options (observers s ! k)
           = \<lparr>io_root = None, rootMargin = [Px (- headerHeight s), Px 0, Percent (- 40), Px 0],
              threshold = 0\<rparr>"
  by (auto simp: nav_ok_def nav_options_def split: option.splits)

lemma header_resize_rebuilt_observer:
  assumes "hasIntersectionObserver pg" and "h \<noteq> headerHeight s"
    and "header_resize pg (Some h) s = Inr s'"
  shows "options (observers s' ! length (observers s))
           = \<lparr>io_root = None, rootMargin = [Px (- h), Px 0, Percent (- 40), Px 0],
              threshold = 0\<rparr>"
    and "observed (observers s' ! length (observers s))
           = filter (\<lambda>i. i \<in> set (ids pg)) NAV_SECTION_IDS"
  using assms
  by (auto simp: header_resize_def initNavObserver_def Let_def nth_append length_disconnect
      nav_options_def byId_def split: option.splits)

text \<open>
  Claim C8. In a browser with \<open>IntersectionObserver\<close>: the module starts with one
  observer with \<open>root: null\<close> (the viewport), a top margin of minus the header's height
  as measured at the start (80 without a header) and a bottom margin of \<open>-40%\<close>; after
  any number of resize broadcasts the script holds the height last measured and the
  observer in use has \<open>root: null\<close>, a top margin of minus that height and a bottom
  margin of \<open>-40%\<close>. On a broadcast that measures the height the script already holds,
  or on a page without header, nothing changes; on one that measures another height, the
  script holds the new height, the old observer is disconnected and a new observer,
  configured for the new height and observing the sections present, is in use.
\<close>

theorem nav_observer_config:
  assumes "hasIntersectionObserver pg"
  shows "nav_start pg hdr
           = Inr \<lparr>headerHeight = (case hdr of None \<Rightarrow> 80 | Some x \<Rightarrow> x),
                  navObserver = Some 0,
                  observers =
                    [\<lparr>options =
                        \<lparr>io_root = None,
                         rootMargin = [Px (- (case hdr of None \<Rightarrow> 80 | Some x \<Rightarrow> x)), Px 0,
                                       Percent (- 40), Px 0],
                         threshold = 0\<rparr>,
                      observed = filter (\<lambda>i. i \<in> set (ids pg)) NAV_SECTION_IDS\<rparr>]\<rparr>
   \<and> held_height hdr []  = (case hdr of None \<Rightarrow> 80 | Some x \<Rightarrow> x)
   \<and> held_height hdr (ms @ [None]) = held_height hdr ms
   \<and> held_height hdr (ms @ [Some x]) = x
   \<and> (\<exists>s0 s' k. nav_start pg hdr = Inr s0 \<and> nav_run pg hs s0 = Inr s'
         \<and> headerHeight s' = held_height hdr hs
         \<and> navObserver s' = Some k \<and> k < length (observers s')
         \<and> options (observers s' ! k)
             = \<lparr>io_root = None,
                rootMargin = [Px (- held_height hdr hs), Px 0, Percent (- 40), Px 0],
                threshold = 0\<rparr>)
   \<and> nav_options (headerHeight s)
       = \<lparr>io_root = None, rootMargin = [Px (- headerHeight s), Px 0, Percent (- 40), Px 0],
          threshold = 0\<rparr>
   \<and> header_resize pg (Some (headerHeight s)) s = Inr s
   \<and> header_resize pg None s = Inr s
   \<and> (nav_ok s \<longrightarrow> h \<noteq> headerHeight s \<longrightarrow>
        (\<exists>s'. header_resize pg (Some h) s = Inr s' \<and> nav_ok s' \<and> headerHeight s' = h
           \<and> navObserver s' = Some (length (observers s))
           \<and> navObserver s' \<noteq> navObserver s
           \<and> observed (observers s' ! the (navObserver s)) = []
           \<and> options (observers s' ! length (observers s))
               = \<lparr>io_root = None, rootMargin = [Px (- h), Px 0, Percent (- 40), Px 0],
                  threshold = 0\<rparr>
           \<and> observed (observers s' ! length (observers s))
               = filter (\<lambda>i. i \<in> set (ids pg)) NAV_SECTION_IDS))"
proof -
  have 0: "nav_start pg hdr
           = Inr \<lparr>headerHeight = (case hdr of None \<Rightarrow> 80 | Some x \<Rightarrow> x),
                  navObserver = Some 0,
                  observers =
                    [\<lparr>options =
                        \<lparr>io_root = None,
                         rootMargin = [Px (- (case hdr of None \<Rightarrow> 80 | Some x \<Rightarrow> x)), Px 0,
                                       Percent (- 40), Px 0],
                         threshold = 0\<rparr>,
                      observed = filter (\<lambda>i. i \<in> set (ids pg)) NAV_SECTION_IDS\<rparr>]\<rparr>"
    using nav_start_eq[OF assms, of hdr] by (simp add: start_height_def)
  have hh: "held_height hdr []  = (case hdr of None \<Rightarrow> 80 | Some x \<Rightarrow> x)"
    "held_height hdr (ms @ [None]) = held_height hdr ms"
    "held_height hdr (ms @ [Some x]) = x"
    by (simp_all add: held_height_def start_height_def)
  obtain s0 where s0: "nav_start pg hdr = Inr s0" "nav_ok s0"
    using nav_start_ok[OF assms] by blast
  have h0: "headerHeight s0 = start_height hdr"
    using s0(1) nav_start_eq[OF assms, of hdr] by auto
  obtain s' where s': "nav_run pg hs s0 = Inr s'" "nav_ok s'"
    "headerHeight s'
       = foldl (\<lambda>h m. case m of None \<Rightarrow> h | Some x \<Rightarrow> x) (headerHeight s0) hs"
    using nav_run_held[OF assms s0(2)] by blast
  have h': "headerHeight s' = held_height hdr hs" using s'(3) h0 by (simp add: held_height_def)
  obtain k where k: "navObserver s' = Some k" "k < length (observers s')"
    "options (observers s' ! k)
       = \<lparr>io_root = None, rootMargin = [Px (- headerHeight s'), Px 0, Percent (- 40), Px 0],
          threshold = 0\<rparr>"
    using nav_ok_options[OF s'(2)] by blast
  have 1: "\<exists>s0 s' k. nav_start pg hdr = Inr s0 \<and> nav_run pg hs s0 = Inr s'
         \<and> headerHeight s' = held_height hdr hs
         \<and> navObserver s' = Some k \<and> k < length (observers s')
         \<and> options (observers s' ! k)
             = \<lparr>io_root = None,
                rootMargin = [Px (- held_height hdr hs), Px 0, Percent (- 40), Px 0],
                threshold = 0\<rparr>"
  proof (rule exI[of _ s0], rule exI[of _ s'], rule exI[of _ k], intro conjI)
    show "nav_start pg hdr = Inr s0" by (rule s0(1))
    show "nav_run pg hs s0 = Inr s'" by (rule s'(1))
    show "headerHeight s' = held_height hdr hs" by (rule h')
    show "navObserver s' = Some k" by (rule k(1))
    show "k < length (observers s')" by (rule k(2))
    show "options (observers s' ! k)
             = \<lparr>io_root = None,
                rootMargin = [Px (- held_height hdr hs), Px 0, Percent (- 40), Px 0],
                threshold = 0\<rparr>" using k(3) h' by simp
  qed
  have 2: "nav_options (headerHeight s)
       = \<lparr>io_root = None, rootMargin = [Px (- headerHeight s), Px 0, Percent (- 40), Px 0],
          threshold = 0\<rparr>" by (simp add: nav_options_def)
  have 3: "nav_ok s \<longrightarrow> h \<noteq> headerHeight s \<longrightarrow>
        (\<exists>s'. header_resize pg (Some h) s = Inr s' \<and> nav_ok s' \<and> headerHeight s' = h
           \<and> navObserver s' = Some (length (observers s))
           \<and> navObserver s' \<noteq> navObserver s
           \<and> observed (observers s' ! the (navObserver s)) = []
           \<and> options (observers s' ! length (observers s))
               = \<lparr>io_root = None, rootMargin = [Px (- h), Px 0, Percent (- 40), Px 0],
                  threshold = 0\<rparr>
           \<and> observed (observers s' ! length (observers s))
               = filter (\<lambda>i. i \<in> set (ids pg)) NAV_SECTION_IDS)"
  proof (intro impI)
    assume ok: "nav_ok s" and ne: "h \<noteq> headerHeight s"
    obtain t where t: "header_resize pg (Some h) s = Inr t" "nav_ok t" "headerHeight t = h"
      "navObserver t = Some (length (observers s))" "navObserver t \<noteq> navObserver s"
      "observed (observers t ! the (navObserver s)) = []"
      using header_resize_rebuild[OF assms ok ne] by blast
    note o = header_resize_rebuilt_observer[OF assms ne t(1)]
    show "\<exists>s'. header_resize pg (Some h) s = Inr s' \<and> nav_ok s' \<and> headerHeight s' = h
           \<and> navObserver s' = Some (length (observers s))
           \<and> navObserver s' \<noteq> navObserver s
           \<and> observed (observers s' ! the (navObserver s)) = []
           \<and> options (observers s' ! length (observers s))
               = \<lparr>io_root = None, rootMargin = [Px (- h), Px 0, Percent (- 40), Px 0],
                  threshold = 0\<rparr>
           \<and> observed (observers s' ! length (observers s))
               = filter (\<lambda>i. i \<in> set (ids pg)) NAV_SECTION_IDS"
      by (intro exI[of _ t] conjI) (rule t o)+
  qed
  from 0 hh 1 2 header_resize_same[of pg s] header_resize_absent[of pg s] 3
  show ?thesis by (intro conjI) assumption+
qed

theorem nav_observer_config_witness:
  "hasIntersectionObserver full_page
   \<and> nav_start full_page (Some 64) = Inr nav_full
   \<and> nav_ok nav_full
   \<and> header_resize full_page (Some 64) nav_full = Inr nav_full
   \<and> (\<exists>s'. header_resize full_page (Some 72) nav_full = Inr s' \<and> headerHeight s' = 72
         \<and> navObserver s' = Some 1 \<and> observed (observers s' ! 0) = []
         \<and> options (observers s' ! 1)
             = \<lparr>io_root = None, rootMargin = [Px (- 72), Px 0, Percent (- 40), Px 0],
                threshold = 0\<rparr>)
   \<and> (\<exists>s'. nav_run full_page [Some 72, Some 72, Some 56] nav_full = Inr s'
         \<and> headerHeight s' = 56)"
proof -
  have i: "hasIntersectionObserver full_page" by (simp add: full_page_def)
  note c = nav_observer_config[OF i, where s = nav_full and h = 72
      and hs = "[Some 72, Some 72, Some 56]" and hdr = "Some 64"]
  have ids: "filter (\<lambda>i. i \<in> set (ids full_page)) NAV_SECTION_IDS
      = [''about'', ''topics'', ''exhibition'', ''access'']"
    by (simp add: full_page_def NAV_SECTION_IDS_def)
  have st: "nav_start full_page (Some 64) = Inr nav_full"
    using c ids by (simp add: nav_full_def)
  have ok: "nav_ok nav_full" by (simp add: nav_ok_def nav_full_def nav_options_def)
  have hh: "headerHeight nav_full = 64" "length (observers nav_full) = 1"
    "the (navObserver nav_full) = 0"
    by (simp_all add: nav_full_def)
  have ne: "(72::int) \<noteq> headerHeight nav_full" using hh by simp
  have 0: "header_resize full_page (Some 64) nav_full = Inr nav_full" using c hh by simp
  have r: "\<exists>s'. header_resize full_page (Some 72) nav_full = Inr s' \<and> nav_ok s'
           \<and> headerHeight s' = 72
           \<and> navObserver s' = Some (length (observers nav_full))
           \<and> navObserver s' \<noteq> navObserver nav_full
           \<and> observed (observers s' ! the (navObserver nav_full)) = []
           \<and> options (observers s' ! length (observers nav_full))
               = \<lparr>io_root = None, rootMargin = [Px (- 72), Px 0, Percent (- 40), Px 0],
                  threshold = 0\<rparr>
           \<and> observed (observers s' ! length (observers nav_full))
               = filter (\<lambda>i. i \<in> set (ids full_page)) NAV_SECTION_IDS"
    using c ok ne by blast
  then have 1: "\<exists>s'. header_resize full_page (Some 72) nav_full = Inr s' \<and> headerHeight s' = 72
         \<and> navObserver s' = Some 1 \<and> observed (observers s' ! 0) = []
         \<and> options (observers s' ! 1)
             = \<lparr>io_root = None, rootMargin = [Px (- 72), Px 0, Percent (- 40), Px 0],
                threshold = 0\<rparr>"
    using hh by auto
  have "\<exists>s0 s' k. nav_start full_page (Some 64) = Inr s0
         \<and> nav_run full_page [Some 72, Some 72, Some 56] s0 = Inr s'
         \<and> headerHeight s' = held_height (Some 64) [Some 72, Some 72, Some 56]
         \<and> navObserver s' = Some k \<and> k < length (observers s')
         \<and> options (observers s' ! k)
             = \<lparr>io_root = None,
                rootMargin = [Px (- held_height (Some 64) [Some 72, Some 72, Some 56]), Px 0,
                              Percent (- 40), Px 0],
                threshold = 0\<rparr>"
    using c by blast
  then have 2: "\<exists>s'. nav_run full_page [Some 72, Some 72, Some 56] nav_full = Inr s'
         \<and> headerHeight s' = 56"
    using st by (auto simp: held_height_def start_height_def)
  from i st ok 0 1 2 show ?thesis by blast
qed

section \<open>Hero particles\<close>

lemma length_make_particles: "length (make_particles n w h r k) = n"
  by (induction n arbitrary: k) simp_all

lemma length_update_particles: "length (fst (update_particles w h r k ps)) = length ps"
proof (induction ps arbitrary: k)
  case Nil
  then show ?case by simp
next
  case (Cons p ps)
  obtain p' k1 where 1: "update_particle w h r k p = (p', k1)" by (cases "update_particle w h r k p")
  obtain ps' k2 where 2: "update_particles w h r k1 ps = (ps', k2)"
    by (cases "update_particles w h r k1 ps")
  from Cons[of k1] 2 have "length ps' = length ps" by simp
  then show ?case using 1 2 by simp
qed

lemma animate_hidden: "\<not> isHeroVisible s \<Longrightarrow> animate s = s\<lparr>animId := None\<rparr>"
  by (simp add: animate_def)

lemma animate_visible_frames:
  "isHeroVisible s \<Longrightarrow> frames (animate s) = frames s @ [nextFrame s]"
  "isHeroVisible s \<Longrightarrow> animId (animate s) = Some (nextFrame s)"
  "isHeroVisible s \<Longrightarrow> nextFrame (animate s) = nextFrame s + 1"
  by (simp_all add: animate_def Let_def split: prod.splits)

lemma animate_keeps:
  "isHeroVisible (animate s) = isHeroVisible s"
  "length (particles (animate s)) = length (particles s)"
  "canvasWidth (animate s) = canvasWidth s"
  "canvasHeight (animate s) = canvasHeight s"
  "particleCount (animate s) = particleCount s"
  using length_update_particles[of "canvasWidth s" "canvasHeight s" "rnd s" "rndPos s" "particles s"]
  by (auto simp: animate_def Let_def split: prod.splits)















lemma single_chain_animate:
  "0 < nextFrame s \<Longrightarrow> frames s = [] \<Longrightarrow> single_chain (animate s)"
  by (cases "isHeroVisible s") (simp_all add: single_chain_def animate_hidden animate_visible_frames)

lemma single_chain_frame: "single_chain s \<Longrightarrow> single_chain (frame_callback h s)"
proof -
  assume sc: "single_chain s"
  show ?thesis
  proof (cases "h \<in> set (frames s)")
    case True
    with sc have "frames s = [h]" and "0 < nextFrame s" by (auto simp: single_chain_def)
    then show ?thesis using True
      by (simp add: frame_callback_def single_chain_animate)
  next
    case False
    then show ?thesis using sc by (simp add: frame_callback_def)
  qed
qed

lemma single_chain_hide: "single_chain s \<Longrightarrow> single_chain (hero_observer False s)"
  by (simp add: hero_observer_def Let_def single_chain_def)

lemma single_chain_show:
  "single_chain s \<Longrightarrow> isHeroVisible s \<or> frames s = [] \<Longrightarrow> single_chain (hero_observer True s)"
proof (cases "isHeroVisible s")
  case True
  assume "single_chain s"
  then show ?thesis using True by (simp add: hero_observer_def Let_def single_chain_def)
next
  case False
  assume "single_chain s" and "isHeroVisible s \<or> frames s = []"
  with False have "frames (s\<lparr>isHeroVisible := True\<rparr>) = []" "0 < nextFrame (s\<lparr>isHeroVisible := True\<rparr>)"
    by (simp_all add: single_chain_def)
  then have "single_chain (animate (s\<lparr>isHeroVisible := True\<rparr>))"
    by (intro single_chain_animate)
  then show ?thesis using False by (simp add: hero_observer_def Let_def)
qed

lemma cancel_single:
  assumes "single_chain s"
  shows "frames (case animId s of None \<Rightarrow> s
                 | Some h \<Rightarrow> if h \<noteq> 0 then cancelAnimationFrame h s else s) = []"
  using assms by (auto simp: single_chain_def cancelAnimationFrame_def split: option.splits)

lemma hero_resize_eq:
  "hero_resize ow oh iw s =
    (let s4 = initParticles ((resizeCanvas ow oh
        (case animId s of None \<Rightarrow> s | Some h \<Rightarrow> if h \<noteq> 0 then cancelAnimationFrame h s else s))
          \<lparr>particleCount := calcParticleCount iw\<rparr>)
     in if isHeroVisible s then animate s4 else s4)"
  by (simp add: hero_resize_def Let_def initParticles_def resizeCanvas_def
      cancelAnimationFrame_def split: option.splits)

lemma single_chain_resize: "single_chain s \<Longrightarrow> single_chain (hero_resize ow oh iw s)"
proof -
  assume sc: "single_chain s"
  let ?s1 = "case animId s of None \<Rightarrow> s | Some h \<Rightarrow> if h \<noteq> 0 then cancelAnimationFrame h s else s"
  let ?s4 = "initParticles ((resizeCanvas ow oh ?s1)\<lparr>particleCount := calcParticleCount iw\<rparr>)"
  have f: "frames ?s4 = []" using cancel_single[OF sc]
    by (simp add: initParticles_def resizeCanvas_def)
  have n: "0 < nextFrame ?s4" using sc
    by (simp add: initParticles_def resizeCanvas_def single_chain_def cancelAnimationFrame_def
        split: option.splits)
  have "single_chain (animate ?s4)" using n f by (rule single_chain_animate)
  moreover have "single_chain ?s4" using n f by (simp add: single_chain_def)
  ultimately show ?thesis by (simp add: hero_resize_def Let_def)
qed

lemma hidden_no_request:
  "\<not> isHeroVisible (hero_step s e) \<Longrightarrow> set (frames (hero_step s e)) \<subseteq> set (frames s)"
proof (cases e)
  case (Frame h)
  assume "\<not> isHeroVisible (hero_step s e)"
  with Frame show ?thesis
    by (auto simp: frame_callback_def animate_keeps animate_hidden split: if_splits)
next
  case (Observe b)
  assume "\<not> isHeroVisible (hero_step s e)"
  with Observe show ?thesis
    by (auto simp: hero_observer_def Let_def animate_keeps split: if_splits)
next
  case (Resize ow oh iw)
  assume h: "\<not> isHeroVisible (hero_step s e)"
  have v: "isHeroVisible (hero_resize ow oh iw s) = isHeroVisible s"
    by (simp add: hero_resize_def Let_def animate_keeps initParticles_def resizeCanvas_def
        cancelAnimationFrame_def split: option.splits)
  with h Resize have "\<not> isHeroVisible s" by simp
  then show ?thesis using Resize
    by (auto simp: hero_resize_eq Let_def initParticles_def resizeCanvas_def
        cancelAnimationFrame_def split: option.splits)
qed
lemma frame_callback_visible: "isHeroVisible (frame_callback h s) = isHeroVisible s"
  by (simp add: frame_callback_def animate_keeps)

lemma frame_halts:
  "\<not> isHeroVisible s \<Longrightarrow> frames s = [h] \<Longrightarrow>
     frames (frame_callback h s) = [] \<and> animId (frame_callback h s) = None"
  by (simp add: frame_callback_def animate_hidden)

lemma run_frames_single:
  assumes "single_chain s"
  shows "single_chain (run_frames s) \<and> (\<not> isHeroVisible (run_frames s) \<longrightarrow> frames (run_frames s) = [])"
proof (cases "frames s")
  case Nil
  then show ?thesis using assms by (simp add: run_frames_def)
next
  case (Cons h hs)
  with assms have f: "frames s = [h]" by (auto simp: single_chain_def)
  then have r: "run_frames s = frame_callback h s" by (simp add: run_frames_def)
  have "single_chain (frame_callback h s)" using assms by (rule single_chain_frame)
  moreover have "\<not> isHeroVisible (frame_callback h s) \<longrightarrow> frames (frame_callback h s) = []"
    using frame_halts[of s h] f by (simp add: frame_callback_visible)
  ultimately show ?thesis using r by simp
qed

lemma single_chain_update: "single_chain s \<Longrightarrow> single_chain (hero_update_step s u)"
proof (cases u)
  case (Render entry)
  assume sc: "single_chain s"
  note rf = run_frames_single[OF sc]
  show ?thesis
  proof (cases entry)
    case None
    then show ?thesis using Render rf by simp
  next
    case (Some b)
    have "single_chain (hero_observer b (run_frames s))"
    proof (cases b)
      case True
      then show ?thesis using rf single_chain_show[of "run_frames s"] by auto
    next
      case False
      then show ?thesis using rf single_chain_hide[of "run_frames s"] by simp
    qed
    then show ?thesis using Render Some by simp
  qed
next
  case (Broadcast ow oh iw)
  assume "single_chain s"
  then show ?thesis using Broadcast by (simp add: single_chain_resize)
qed

lemma single_chain_closure: "single_chain (hero_closure cv iw r)"
  unfolding hero_closure_def
  by (rule single_chain_animate) (simp_all add: initParticles_def resizeCanvas_def)

lemma single_chain_updates:
  "single_chain s \<Longrightarrow> single_chain (foldl hero_update_step s us)"
  by (induction us arbitrary: s) (simp_all add: single_chain_update)

lemma observer_resume:
  "\<not> isHeroVisible s \<Longrightarrow>
     frames (hero_observer True s) = frames s @ [nextFrame s]
     \<and> animId (hero_observer True s) = Some (nextFrame s)"
  by (simp add: hero_observer_def Let_def animate_visible_frames)

lemma observer_no_transition:
  "isHeroVisible s \<or> \<not> b \<Longrightarrow> frames (hero_observer b s) = frames s"
  by (auto simp: hero_observer_def Let_def)

lemma closure_fields:
  "frames (hero_closure cv iw r) = [1]"
  "animId (hero_closure cv iw r) = Some 1"
  "nextFrame (hero_closure cv iw r) = 2"
  "isHeroVisible (hero_closure cv iw r)"
  by (simp_all add: hero_closure_def animate_def initParticles_def resizeCanvas_def Let_def
      split: prod.splits)

lemma hero_resize_fields:
  "canvasWidth (hero_resize ow oh iw s) = ow"
  "canvasHeight (hero_resize ow oh iw s) = oh"
  "particleCount (hero_resize ow oh iw s) = calcParticleCount iw"
  "isHeroVisible (hero_resize ow oh iw s) = isHeroVisible s"
  "length (particles (hero_resize ow oh iw s)) = calcParticleCount iw"
  by (simp_all add: hero_resize_eq Let_def animate_keeps)
     (simp_all add: initParticles_def resizeCanvas_def cancelAnimationFrame_def
        length_make_particles split: option.splits)

lemma hero_resize_fresh:
  "hero_resize ow oh iw (s\<lparr>particles := ps\<rparr>) = hero_resize ow oh iw s"
  by (simp add: hero_resize_def Let_def initParticles_def resizeCanvas_def
      cancelAnimationFrame_def split: option.splits)

lemma hero_resize_hidden_particles:
  "\<not> isHeroVisible s \<Longrightarrow>
     particles (hero_resize ow oh iw s) = make_particles (calcParticleCount iw) ow oh (rnd s) (rndPos s)"
  by (simp add: hero_resize_eq Let_def initParticles_def resizeCanvas_def
      cancelAnimationFrame_def split: option.splits)

lemma hero_resize_visible_particles:
  "isHeroVisible s \<Longrightarrow>
     particles (hero_resize ow oh iw s)
       = fst (update_particles ow oh (rnd s) (rndPos s + 9 * calcParticleCount iw)
               (make_particles (calcParticleCount iw) ow oh (rnd s) (rndPos s)))"
  by (simp add: hero_resize_eq Let_def initParticles_def resizeCanvas_def animate_def
      cancelAnimationFrame_def split: option.splits prod.splits)

lemma hero_resize_cancels:
  assumes "animId s = Some h" and "h \<noteq> 0" and "h < nextFrame s"
  shows "h \<notin> set (frames (hero_resize ow oh iw s))"
proof -
  let ?s4 = "initParticles ((resizeCanvas ow oh (cancelAnimationFrame h s))
          \<lparr>particleCount := calcParticleCount iw\<rparr>)"
  have f: "frames ?s4 = removeAll h (frames s)" and n: "nextFrame ?s4 = nextFrame s"
    by (simp_all add: initParticles_def resizeCanvas_def cancelAnimationFrame_def)
  have e: "hero_resize ow oh iw s = (if isHeroVisible s then animate ?s4 else ?s4)"
    using assms by (simp add: hero_resize_eq Let_def)
  show ?thesis
  proof (cases "isHeroVisible s")
    case True
    then have "isHeroVisible ?s4"
      by (simp add: initParticles_def resizeCanvas_def cancelAnimationFrame_def)
    then have "frames (animate ?s4) = removeAll h (frames s) @ [nextFrame s]"
      using f n by (simp add: animate_visible_frames)
    then show ?thesis using True e assms(3) by simp
  next
    case False
    then show ?thesis using e f by simp
  qed
qed

lemma hero_resize_single:
  assumes "single_chain s"
  shows "frames (hero_resize ow oh iw s) = (if isHeroVisible s then [nextFrame s] else [])"
proof -
  let ?s1 = "case animId s of None \<Rightarrow> s | Some h \<Rightarrow> if h \<noteq> 0 then cancelAnimationFrame h s else s"
  let ?s4 = "initParticles ((resizeCanvas ow oh ?s1)\<lparr>particleCount := calcParticleCount iw\<rparr>)"
  have f: "frames ?s4 = []" using cancel_single[OF assms]
    by (simp add: initParticles_def resizeCanvas_def)
  have n: "nextFrame ?s4 = nextFrame s" and v: "isHeroVisible ?s4 = isHeroVisible s"
    by (simp_all add: initParticles_def resizeCanvas_def cancelAnimationFrame_def
        split: option.splits)
  show ?thesis
  proof (cases "isHeroVisible s")
    case True
    then have "frames (animate ?s4) = [nextFrame s]"
      using f n v by (simp add: animate_visible_frames)
    then show ?thesis using True by (simp add: hero_resize_eq Let_def)
  next
    case False
    then show ?thesis using f by (simp add: hero_resize_eq Let_def)
  qed
qed

lemma hero_resize_resume:
  "isHeroVisible s \<Longrightarrow>
     frames (hero_resize ow oh iw s)
       = (case animId s of None \<Rightarrow> frames s
          | Some h \<Rightarrow> if h \<noteq> 0 then removeAll h (frames s) else frames s) @ [nextFrame s]"
  "isHeroVisible s \<Longrightarrow> animId (hero_resize ow oh iw s) = Some (nextFrame s)"
  "\<not> isHeroVisible s \<Longrightarrow> set (frames (hero_resize ow oh iw s)) \<subseteq> set (frames s)"
  by (auto simp: hero_resize_eq Let_def initParticles_def resizeCanvas_def animate_def
      cancelAnimationFrame_def split: option.splits prod.splits)




lemma frames_visible_foldl:
  "isHeroVisible (foldl (\<lambda>s' h. frame_callback h s') s hs) = isHeroVisible s"
  by (induction hs arbitrary: s) (simp_all add: frame_callback_visible)

lemma run_frames_visible: "isHeroVisible (run_frames s) = isHeroVisible s"
  by (simp add: run_frames_def frames_visible_foldl)

lemma run_frames_one: "frames s = [h] \<Longrightarrow> run_frames s = frame_callback h s"
  by (simp add: run_frames_def)

lemma single_chain_length: "single_chain s \<Longrightarrow> length (frames s) \<le> 1"
  by (auto simp: single_chain_def)

lemma observer_visible: "isHeroVisible s \<Longrightarrow> hero_observer True s = s"
  by (simp add: hero_observer_def Let_def)

lemma observer_hide: "hero_observer False s = s\<lparr>isHeroVisible := False\<rparr>"
  by (simp add: hero_observer_def Let_def)

lemma reachable_gating:
  "single_chain (foldl hero_update_step (hero_closure cv iw r) us)
   \<and> length (frames (foldl hero_update_step (hero_closure cv iw r) us)) \<le> 1
   \<and> isHeroVisible (run_frames (foldl hero_update_step (hero_closure cv iw r) us))
       = isHeroVisible (foldl hero_update_step (hero_closure cv iw r) us)
   \<and> (\<not> isHeroVisible (foldl hero_update_step (hero_closure cv iw r) us) \<longrightarrow>
        frames (run_frames (foldl hero_update_step (hero_closure cv iw r) us)) = [])"
proof -
  let ?t = "foldl hero_update_step (hero_closure cv iw r) us"
  have sc: "single_chain ?t" by (rule single_chain_updates[OF single_chain_closure])
  have "\<not> isHeroVisible ?t \<longrightarrow> frames (run_frames ?t) = []"
    using run_frames_single[OF sc] by (simp add: run_frames_visible)
  then show ?thesis using sc single_chain_length[OF sc] by (simp add: run_frames_visible)
qed

text \<open>
  Claim C5. While the section is hidden \<open>animate\<close> only clears \<open>animId\<close>; no callback
  that leaves the section hidden requests a frame; hiding cancels nothing, and the frame
  in flight when the section was hidden runs into the guard and leaves no request behind.
  On the change from hidden to visible the observer's callback runs \<open>animate\<close>, which
  requests the next frame; on an entry that finds the section visible already it does
  nothing. The loop starts visible with one request. In every state it reaches by
  rendering updates and resize broadcasts there is one chain of requests, at most one
  frame is requested, and once the frame callbacks of an update have run in a hidden
  section none is requested: when the observer's callback resumes the loop, the loop is
  not running.
\<close>

theorem visibility_gating:
  "(\<not> isHeroVisible s \<longrightarrow> animate s = s\<lparr>animId := None\<rparr>)
   \<and> (\<not> isHeroVisible (hero_step s e) \<longrightarrow> set (frames (hero_step s e)) \<subseteq> set (frames s))
   \<and> hero_observer False s = s\<lparr>isHeroVisible := False\<rparr>
   \<and> (\<not> isHeroVisible s \<longrightarrow> frames s = [h] \<longrightarrow>
        run_frames s = frame_callback h s
        \<and> frames (frame_callback h s) = [] \<and> animId (frame_callback h s) = None)
   \<and> (\<not> isHeroVisible s \<longrightarrow>
        frames (hero_observer True s) = frames s @ [nextFrame s]
        \<and> animId (hero_observer True s) = Some (nextFrame s))
   \<and> (isHeroVisible s \<longrightarrow> hero_observer True s = s)
   \<and> isHeroVisible (hero_closure cv iw r)
   \<and> frames (hero_closure cv iw r) = [1]
   \<and> animId (hero_closure cv iw r) = Some 1
   \<and> single_chain (foldl hero_update_step (hero_closure cv iw r) us)
   \<and> length (frames (foldl hero_update_step (hero_closure cv iw r) us)) \<le> 1
   \<and> isHeroVisible (run_frames (foldl hero_update_step (hero_closure cv iw r) us))
       = isHeroVisible (foldl hero_update_step (hero_closure cv iw r) us)
   \<and> (\<not> isHeroVisible (foldl hero_update_step (hero_closure cv iw r) us) \<longrightarrow>
        frames (run_frames (foldl hero_update_step (hero_closure cv iw r) us)) = [])"
proof -
  have 4: "\<not> isHeroVisible s \<longrightarrow> frames s = [h] \<longrightarrow>
        run_frames s = frame_callback h s
        \<and> frames (frame_callback h s) = [] \<and> animId (frame_callback h s) = None"
    using frame_halts[of s h] run_frames_one[of s h] by blast
  from animate_hidden[of s] hidden_no_request[of s e] observer_hide[of s] 4 observer_resume[of s]
    observer_visible[of s] closure_fields(4)[of cv iw r] closure_fields(1)[of cv iw r]
    closure_fields(2)[of cv iw r] reachable_gating[of cv iw r us]
  show ?thesis by (intro conjI impI) (simp_all only: simp_thms)
qed

theorem visibility_gating_witness:
  "isHeroVisible (hero_closure (300, 150) 1280 (\<lambda>k. 1 / 2))
   \<and> hero_observer True (hero_closure (300, 150) 1280 (\<lambda>k. 1 / 2))
       = hero_closure (300, 150) 1280 (\<lambda>k. 1 / 2)
   \<and> \<not> isHeroVisible (hero_observer False (hero_closure (300, 150) 1280 (\<lambda>k. 1 / 2)))
   \<and> frames (hero_observer False (hero_closure (300, 150) 1280 (\<lambda>k. 1 / 2))) = [1]
   \<and> frames (frame_callback 1
         (hero_observer False (hero_closure (300, 150) 1280 (\<lambda>k. 1 / 2)))) = []
   \<and> animId (frame_callback 1
         (hero_observer False (hero_closure (300, 150) 1280 (\<lambda>k. 1 / 2)))) = None
   \<and> \<not> isHeroVisible (foldl hero_update_step (hero_closure (300, 150) 1280 (\<lambda>k. 1 / 2))
         [Render (Some False)])
   \<and> frames (run_frames (foldl hero_update_step (hero_closure (300, 150) 1280 (\<lambda>k. 1 / 2))
         [Render (Some False)])) = []
   \<and> length (frames (foldl hero_update_step (hero_closure (300, 150) 1280 (\<lambda>k. 1 / 2))
         [Render (Some False), Render (Some True), Broadcast 800 400 1500])) \<le> 1"
proof -
  let ?s = "hero_closure (300, 150) 1280 (\<lambda>k. 1 / 2)"
  let ?t = "hero_observer False ?s"
  let ?u = "foldl hero_update_step ?s [Render (Some False)]"
  note g = visibility_gating[where s = ?t and e = "Frame 1" and h = 1 and cv = "(300, 150)"
      and iw = 1280 and r = "\<lambda>k. 1 / 2" and us = "[Render (Some False)]"]
  note g2 = visibility_gating[where s = ?s and cv = "(300, 150)"
      and iw = 1280 and r = "\<lambda>k. 1 / 2"
      and us = "[Render (Some False), Render (Some True), Broadcast 800 400 1500]"]
  have vs: "isHeroVisible ?s" using g by blast
  have 0: "hero_observer True ?s = ?s" using g2 vs by blast
  have vt: "\<not> isHeroVisible ?t" by (simp add: hero_observer_def Let_def)
  have ft: "frames ?t = [1]" by (simp add: hero_observer_def Let_def closure_fields)
  have 1: "frames (frame_callback 1 ?t) = [] \<and> animId (frame_callback 1 ?t) = None"
    using g vt ft by blast
  have vu: "\<not> isHeroVisible ?u" by (simp add: hero_observer_def Let_def)
  have 2: "frames (run_frames ?u) = []" using g vu by blast
  have 3: "length (frames (foldl hero_update_step ?s
         [Render (Some False), Render (Some True), Broadcast 800 400 1500])) \<le> 1"
    using g2 by blast
  from vs 0 vt ft 1 vu 2 3 show ?thesis by blast
qed

text \<open>
  Claim C7. After the resize callback the canvas has the measured size of its container,
  \<open>particleCount\<close> is \<open>min (innerWidth div 15) 80\<close> and so is the number of
  particles; the result does not depend on the particles held before (they are created
  anew from the random supply, and moved once by \<open>animate\<close> when the section is
  visible); the request whose handle \<open>animId\<close> holds is cancelled; a new request is
  made when the section is visible and none when it is hidden; and in every state the
  loop reaches by rendering updates and resize broadcasts, no request of before the
  broadcast is left: afterwards the new request is the only one, or there is none.
\<close>

theorem resize_reinitializes:
  "canvasWidth (hero_resize ow oh iw s) = ow
   \<and> canvasHeight (hero_resize ow oh iw s) = oh
   \<and> calcParticleCount iw = min (iw div 15) 80
   \<and> particleCount (hero_resize ow oh iw s) = calcParticleCount iw
   \<and> length (particles (hero_resize ow oh iw s)) = calcParticleCount iw
   \<and> hero_resize ow oh iw (s\<lparr>particles := ps\<rparr>) = hero_resize ow oh iw s
   \<and> (\<not> isHeroVisible s \<longrightarrow>
        particles (hero_resize ow oh iw s)
          = make_particles (calcParticleCount iw) ow oh (rnd s) (rndPos s))
   \<and> (isHeroVisible s \<longrightarrow>
        particles (hero_resize ow oh iw s)
          = fst (update_particles ow oh (rnd s) (rndPos s + 9 * calcParticleCount iw)
                  (make_particles (calcParticleCount iw) ow oh (rnd s) (rndPos s))))
   \<and> (animId s = Some h \<longrightarrow> h \<noteq> 0 \<longrightarrow> h < nextFrame s \<longrightarrow>
        h \<notin> set (frames (hero_resize ow oh iw s)))
   \<and> (isHeroVisible s \<longrightarrow>
        nextFrame s \<in> set (frames (hero_resize ow oh iw s))
        \<and> animId (hero_resize ow oh iw s) = Some (nextFrame s))
   \<and> (\<not> isHeroVisible s \<longrightarrow> set (frames (hero_resize ow oh iw s)) \<subseteq> set (frames s))
   \<and> frames (hero_resize ow oh iw (foldl hero_update_step (hero_closure cv iw0 r) us))
       = (if isHeroVisible (foldl hero_update_step (hero_closure cv iw0 r) us)
          then [nextFrame (foldl hero_update_step (hero_closure cv iw0 r) us)] else [])"
proof -
  have "frames (hero_resize ow oh iw (foldl hero_update_step (hero_closure cv iw0 r) us))
       = (if isHeroVisible (foldl hero_update_step (hero_closure cv iw0 r) us)
          then [nextFrame (foldl hero_update_step (hero_closure cv iw0 r) us)] else [])"
    using single_chain_updates[OF single_chain_closure, of cv iw0 r us]
    by (rule hero_resize_single)
  moreover have "isHeroVisible s \<longrightarrow>
        nextFrame s \<in> set (frames (hero_resize ow oh iw s))
        \<and> animId (hero_resize ow oh iw s) = Some (nextFrame s)"
    using hero_resize_resume(1,2)[of s ow oh iw] by simp
  moreover have "\<not> isHeroVisible s \<longrightarrow> set (frames (hero_resize ow oh iw s)) \<subseteq> set (frames s)"
    using hero_resize_resume(3)[of s ow oh iw] by simp
  ultimately show ?thesis
    using hero_resize_fields[of ow oh iw s]
      hero_resize_fresh[where ow = ow and oh = oh and iw = iw and s = s and ps = ps]
      hero_resize_hidden_particles[of s ow oh iw] hero_resize_visible_particles[of s ow oh iw]
      hero_resize_cancels[of s h ow oh iw]
    by (simp add: calcParticleCount_def)
qed

theorem resize_reinitializes_witness:
  "isHeroVisible (hero_closure (300, 150) 1280 (\<lambda>k. 1 / 2))
   \<and> animId (hero_closure (300, 150) 1280 (\<lambda>k. 1 / 2)) = Some 1
   \<and> nextFrame (hero_closure (300, 150) 1280 (\<lambda>k. 1 / 2)) = 2
   \<and> canvasWidth (hero_resize 800 400 1500 (hero_closure (300, 150) 1280 (\<lambda>k. 1 / 2))) = 800
   \<and> length (particles (hero_resize 800 400 1500 (hero_closure (300, 150) 1280 (\<lambda>k. 1 / 2)))) = 80
   \<and> 1 \<notin> set (frames (hero_resize 800 400 1500 (hero_closure (300, 150) 1280 (\<lambda>k. 1 / 2))))
   \<and> frames (hero_resize 800 400 1500 (hero_closure (300, 150) 1280 (\<lambda>k. 1 / 2))) = [2]
   \<and> \<not> isHeroVisible (hero_observer False (hero_closure (300, 150) 1280 (\<lambda>k. 1 / 2)))
   \<and> length (particles (hero_resize 300 150 600
        (hero_observer False (hero_closure (300, 150) 1280 (\<lambda>k. 1 / 2))))) = 40
   \<and> set (frames (hero_resize 300 150 600
        (hero_observer False (hero_closure (300, 150) 1280 (\<lambda>k. 1 / 2))))) \<subseteq> {1}"
proof -
  let ?s = "hero_closure (300, 150) 1280 (\<lambda>k. 1 / 2)"
  let ?t = "hero_observer False ?s"
  have vs: "isHeroVisible ?s" and a: "animId ?s = Some 1" and n: "nextFrame ?s = 2"
    and f: "frames ?s = [1]"
    by (simp_all add: closure_fields)
  have vt: "\<not> isHeroVisible ?t" and ft: "frames ?t = [1]"
    by (simp_all add: hero_observer_def Let_def closure_fields)
  note r1 = resize_reinitializes[where ow = 800 and oh = 400 and iw = 1500 and s = ?s
      and ps = "[]" and h = 1 and cv = "(300, 150)" and ?iw0.0 = 1280 and r = "\<lambda>k. 1 / 2"
      and us = "[]"]
  note r2 = resize_reinitializes[where ow = 300 and oh = 150 and iw = 600 and s = ?t
      and ps = "[]" and h = 1]
  have 1: "canvasWidth (hero_resize 800 400 1500 ?s) = 800" using r1 by blast
  have 2: "length (particles (hero_resize 800 400 1500 ?s)) = 80" using r1 by simp
  have 3: "1 \<notin> set (frames (hero_resize 800 400 1500 ?s))" using r1 a n by simp
  have 4: "frames (hero_resize 800 400 1500 ?s) = [2]" using r1 vs n by simp
  have 5: "length (particles (hero_resize 300 150 600 ?t)) = 40" using r2 by simp
  have 6: "set (frames (hero_resize 300 150 600 ?t)) \<subseteq> {1}" using r2 vt ft by simp
  from vs a n 1 2 3 4 vt 5 6 show ?thesis by blast
qed

section \<open>Gallery lightbox\<close>

lemma smod_nonneg: "0 \<le> a \<Longrightarrow> 0 < n \<Longrightarrow> a smod n = a mod (n::int)"
  by (simp add: signed_modulo_int_def signed_divide_int_def sgn_if minus_div_mult_eq_mod)

lemma updateLightboxContent_index:
  "currentIndex (updateLightboxContent pg s) = currentIndex s"
  by (simp add: updateLightboxContent_def Let_def updateCounter_def set_src_def)

lemma showPrev_index:
  "currentIndex (showPrev pg s)
     = (currentIndex s - 1 + int (length (galleryItems pg))) smod int (length (galleryItems pg))"
  by (simp add: showPrev_def updateLightboxContent_index)

lemma showNext_index:
  "currentIndex (showNext pg s) = (currentIndex s + 1) smod int (length (galleryItems pg))"
  by (simp add: showNext_def updateLightboxContent_index)

lemma openLightbox_index: "currentIndex (openLightbox pg i s) = i"
  by (simp add: openLightbox_def Let_def updateCounter_def set_src_def)

text \<open>
  Claim C6. With \<open>itemCount > 0\<close> gallery items and the index \<open>i\<close> in range,
  \<open>showPrev\<close> sets the index to \<open>(i - 1 + itemCount) mod itemCount\<close> and \<open>showNext\<close>
  to \<open>(i + 1) mod itemCount\<close>; both results are in range; with five items \<open>showPrev\<close>
  from 0 gives 4 and \<open>showNext\<close> from 4 gives 0.
\<close>

theorem modal_index_circular:
  assumes "galleryItems pg \<noteq> []" and "0 \<le> currentIndex s"
    and "currentIndex s < int (length (galleryItems pg))"
  shows "currentIndex (showPrev pg s)
           = (currentIndex s - 1 + int (length (galleryItems pg))) mod int (length (galleryItems pg))
       \<and> currentIndex (showNext pg s) = (currentIndex s + 1) mod int (length (galleryItems pg))
       \<and> 0 \<le> currentIndex (showPrev pg s)
       \<and> currentIndex (showPrev pg s) < int (length (galleryItems pg))
       \<and> 0 \<le> currentIndex (showNext pg s)
       \<and> currentIndex (showNext pg s) < int (length (galleryItems pg))
       \<and> (length (galleryItems pg) = 5 \<longrightarrow> currentIndex s = 0 \<longrightarrow> currentIndex (showPrev pg s) = 4)
       \<and> (length (galleryItems pg) = 5 \<longrightarrow> currentIndex s = 4 \<longrightarrow> currentIndex (showNext pg s) = 0)"
proof -
  let ?n = "int (length (galleryItems pg))"
  have n: "0 < ?n" using assms(1) by simp
  have p: "currentIndex (showPrev pg s) = (currentIndex s - 1 + ?n) mod ?n"
    using assms n by (simp add: showPrev_index smod_nonneg)
  have x: "currentIndex (showNext pg s) = (currentIndex s + 1) mod ?n"
    using assms n by (simp add: showNext_index smod_nonneg)
  have r: "0 \<le> currentIndex (showPrev pg s)" "currentIndex (showPrev pg s) < ?n"
    "0 \<le> currentIndex (showNext pg s)" "currentIndex (showNext pg s) < ?n"
    using n by (simp_all add: p x)
  have 5: "length (galleryItems pg) = 5 \<longrightarrow> currentIndex s = 0 \<longrightarrow> currentIndex (showPrev pg s) = 4"
    "length (galleryItems pg) = 5 \<longrightarrow> currentIndex s = 4 \<longrightarrow> currentIndex (showNext pg s) = 0"
    by (simp_all add: p x)
  from p x r 5 show ?thesis by blast
qed

theorem modal_index_circular_witness:
  "galleryItems page5 \<noteq> []
   \<and> length (galleryItems page5) = 5
   \<and> currentIndex (openLightbox page5 0 ui_init) = 0
   \<and> currentIndex (showPrev page5 (openLightbox page5 0 ui_init)) = 4
   \<and> currentIndex (openLightbox page5 4 ui_init) = 4
   \<and> currentIndex (showNext page5 (openLightbox page5 4 ui_init)) = 0"
proof -
  have n: "galleryItems page5 \<noteq> []" and l: "length (galleryItems page5) = 5"
    by (simp_all add: page5_def gallery3_def)
  have a: "0 \<le> currentIndex (openLightbox page5 0 ui_init)"
    "currentIndex (openLightbox page5 0 ui_init) < int (length (galleryItems page5))"
    "0 \<le> currentIndex (openLightbox page5 4 ui_init)"
    "currentIndex (openLightbox page5 4 ui_init) < int (length (galleryItems page5))"
    by (simp_all add: openLightbox_index l)
  have 1: "currentIndex (showPrev page5 (openLightbox page5 0 ui_init)) = 4"
    using modal_index_circular[OF n a(1) a(2)] l by (simp add: openLightbox_index)
  have 2: "currentIndex (showNext page5 (openLightbox page5 4 ui_init)) = 0"
    using modal_index_circular[OF n a(3) a(4)] l by (simp add: openLightbox_index)
  from n l 1 2 show ?thesis by (simp add: openLightbox_index)
qed

lemma scroll_openLightbox: "scroll (openLightbox pg i s) = lockScroll (scroll s)"
  by (simp add: openLightbox_def Let_def updateCounter_def set_src_def)

lemma scroll_closeLightbox: "scroll (closeLightbox pg s) = unlockScroll (scroll s)"
  by (simp add: closeLightbox_def Let_def split: option.splits)

lemma scroll_fadeIn: "scroll (fadeInLightboxImage pg s) = scroll s"
  by (simp add: fadeInLightboxImage_def)

lemma scroll_update: "scroll (updateLightboxContent pg s) = scroll s"
  by (simp add: updateLightboxContent_def Let_def updateCounter_def set_src_def)

lemma scroll_onComplete: "scroll (fadeOut_onComplete pg d s) = scroll s"
  by (simp add: fadeOut_onComplete_def Let_def updateCounter_def set_src_def scroll_fadeIn)

lemma scroll_navigation: "navigation e \<Longrightarrow> scroll (lb_step pg s e) = scroll s"
  by (cases e)
     (simp_all add: navigation_def showPrev_def showNext_def scroll_update fadeOut_done_def
        scroll_onComplete fadeIn_done_def img_load_def img_error_def Let_def scroll_fadeIn
        split: list.splits)

lemma scroll_navigations:
  "list_all navigation evs \<Longrightarrow> scroll (lb_run pg evs s) = scroll s"
  unfolding lb_run_def by (induction evs arbitrary: s) (simp_all add: scroll_navigation)

lemma unlock_lock: "lock_inv sc \<Longrightarrow> unlockScroll (lockScroll sc) = sc"
  by (auto simp: lock_inv_def lockScroll_def unlockScroll_def Let_def)

lemma lock_inv_ui_step: "lock_inv (scroll s) \<Longrightarrow> lock_inv (scroll (ui_step pg s e))"
proof (cases e)
  case (Lightbox l)
  assume i: "lock_inv (scroll s)"
  show ?thesis
  proof (cases "navigation l")
    case True
    then show ?thesis using i Lightbox by (simp add: scroll_navigation)
  next
    case False
    then show ?thesis using i Lightbox
      by (cases l) (simp_all add: navigation_def scroll_openLightbox scroll_closeLightbox
          lock_inv_lockScroll lock_inv_unlockScroll)
  qed
next
  case MenuOpen
  assume "lock_inv (scroll s)"
  then show ?thesis using MenuOpen by (simp add: openMobileMenu_def lock_inv_lockScroll)
next
  case MenuClose
  assume "lock_inv (scroll s)"
  then show ?thesis using MenuClose by (simp add: closeMobileMenu_def lock_inv_unlockScroll)
qed

lemma lock_inv_ui_run: "lock_inv (scroll s) \<Longrightarrow> lock_inv (scroll (ui_run pg evs s))"
  unfolding ui_run_def by (induction evs arbitrary: s) (simp_all add: lock_inv_ui_step)

lemma lock_inv_ui_init: "lock_inv (scroll ui_init)"
  by (simp add: ui_init_def lock_inv_init)

text \<open>
  Claim C10. \<open>openLightbox\<close> acts on the scroll lock as one \<open>lockScroll\<close> (the counter
  goes up by one) and \<open>closeLightbox\<close> as one \<open>unlockScroll\<close>. From every state the
  menu and the lightbox can reach, opening the lightbox at any index, navigating in it
  and closing it leaves the scroll lock as it was before the opening; a lock held before
  (by the mobile menu) is still held after.
\<close>

theorem lightbox_lock_balanced:
  "scroll (openLightbox pg i s) = lockScroll (scroll s)
   \<and> scrollLockCount (scroll (openLightbox pg i s)) = scrollLockCount (scroll s) + 1
   \<and> scroll (closeLightbox pg s) = unlockScroll (scroll s)
   \<and> (list_all navigation evs \<longrightarrow>
        scroll (closeLightbox pg (lb_run pg evs (openLightbox pg i (ui_run pg before ui_init))))
          = scroll (ui_run pg before ui_init))
   \<and> (list_all navigation evs \<longrightarrow> 0 < scrollLockCount (scroll (ui_run pg before ui_init)) \<longrightarrow>
        noScroll (scroll (closeLightbox pg
          (lb_run pg evs (openLightbox pg i (ui_run pg before ui_init))))))"
proof -
  let ?s = "ui_run pg before ui_init"
  have inv: "lock_inv (scroll ?s)" by (rule lock_inv_ui_run[OF lock_inv_ui_init])
  have rt: "list_all navigation evs \<longrightarrow>
      scroll (closeLightbox pg (lb_run pg evs (openLightbox pg i ?s))) = scroll ?s"
    using unlock_lock[OF inv]
    by (simp add: scroll_closeLightbox scroll_navigations scroll_openLightbox)
  moreover have "0 < scrollLockCount (scroll ?s) \<longrightarrow> noScroll (scroll ?s)"
    using inv by (simp add: lock_inv_def)
  ultimately show ?thesis
    by (simp add: scroll_openLightbox scroll_closeLightbox count_lockScroll)
qed

theorem lightbox_lock_balanced_witness:
  "list_all navigation [ShowNext, FadeOutDone, ImgLoad]
   \<and> scrollLockCount (scroll (ui_run full_page [MenuOpen] ui_init)) = 1
   \<and> scrollLockCount (scroll (openLightbox full_page 0 (ui_run full_page [MenuOpen] ui_init))) = 2
   \<and> scrollLockCount (scroll (closeLightbox full_page
        (lb_run full_page [ShowNext, FadeOutDone, ImgLoad]
          (openLightbox full_page 0 (ui_run full_page [MenuOpen] ui_init))))) = 1
   \<and> noScroll (scroll (closeLightbox full_page
        (lb_run full_page [ShowNext, FadeOutDone, ImgLoad]
          (openLightbox full_page 0 (ui_run full_page [MenuOpen] ui_init)))))"
proof -
  note b = lightbox_lock_balanced[where pg = full_page and i = 0 and before = "[MenuOpen]"
      and evs = "[ShowNext, FadeOutDone, ImgLoad]" and s = "ui_run full_page [MenuOpen] ui_init"]
  have n: "list_all navigation [ShowNext, FadeOutDone, ImgLoad]" by (simp add: navigation_def)
  have c: "scrollLockCount (scroll (ui_run full_page [MenuOpen] ui_init)) = 1"
    by (simp add: ui_run_def openMobileMenu_def full_page_def byId_def ui_init_def scroll_init_def
        lockScroll_def Let_def)
  have 1: "scrollLockCount (scroll (openLightbox full_page 0 (ui_run full_page [MenuOpen] ui_init))) = 2"
    using conjunct1[OF conjunct2[OF b]] c by simp
  have 2: "scroll (closeLightbox full_page
        (lb_run full_page [ShowNext, FadeOutDone, ImgLoad]
          (openLightbox full_page 0 (ui_run full_page [MenuOpen] ui_init))))
      = scroll (ui_run full_page [MenuOpen] ui_init)" using b n by blast
  have 3: "noScroll (scroll (closeLightbox full_page
        (lb_run full_page [ShowNext, FadeOutDone, ImgLoad]
          (openLightbox full_page 0 (ui_run full_page [MenuOpen] ui_init)))))"
  proof -
    have "0 < scrollLockCount (scroll (ui_run full_page [MenuOpen] ui_init))" using c by simp
    with b n show ?thesis by blast
  qed
  have 4: "scrollLockCount (scroll (closeLightbox full_page
        (lb_run full_page [ShowNext, FadeOutDone, ImgLoad]
          (openLightbox full_page 0 (ui_run full_page [MenuOpen] ui_init))))) = 1"
    using 2 c by simp
  from n c 1 4 3 show ?thesis by blast
qed

text \<open>
  Claim C2 at the input where the code breaks it. The lightbox is opened at the first of
  three items; \<open>showNext\<close>, and its fade-out completes: the second image is assigned
  and loading, with the \<open>load\<close> and \<open>error\<close> listeners attached. \<open>showNext\<close> again,
  before that image is ready: the index is that of the third item and the pending tweens
  are killed, but the listeners of the superseded transition stay attached until the new
  fade-out completes. The \<open>load\<close> of the second image arrives in between and is not
  discarded: it starts a fade-in while the second, superseded image is the one assigned.
  That fade-in outlives the new fade-out: when it ends, the third image is shown at full
  opacity before it is complete.
\<close>

theorem stale_signal_fades_in:
  "currentIndex (lb_run full_page [ShowNext, FadeOutDone, ShowNext]
      (openLightbox full_page 0 ui_init)) = 2
   \<and> imgSrc (lb_run full_page [ShowNext, FadeOutDone, ShowNext]
      (openLightbox full_page 0 ui_init)) = ''b.jpg?w=1200&h=800''
   \<and> tweens (lb_run full_page [ShowNext, FadeOutDone, ShowNext]
      (openLightbox full_page 0 ui_init))
       = [FadeOut \<lparr>src = ''c.jpg?w=1200&h=800'', alt = ''C'', caption = ''Three'', desc = [],
                    fullCaption = ''Three''\<rparr>]
   \<and> loadListener (lb_run full_page [ShowNext, FadeOutDone, ShowNext]
      (openLightbox full_page 0 ui_init))
   \<and> errorListener (lb_run full_page [ShowNext, FadeOutDone, ShowNext]
      (openLightbox full_page 0 ui_init))
   \<and> currentIndex (lb_run full_page [ShowNext, FadeOutDone, ShowNext, ImgLoad]
      (openLightbox full_page 0 ui_init)) = 2
   \<and> imgSrc (lb_run full_page [ShowNext, FadeOutDone, ShowNext, ImgLoad]
      (openLightbox full_page 0 ui_init)) = ''b.jpg?w=1200&h=800''
   \<and> tweens (lb_run full_page [ShowNext, FadeOutDone, ShowNext, ImgLoad]
      (openLightbox full_page 0 ui_init))
       = [FadeOut \<lparr>src = ''c.jpg?w=1200&h=800'', alt = ''C'', caption = ''Three'', desc = [],
                    fullCaption = ''Three''\<rparr>,
          FadeIn]
   \<and> imgSrc (lb_run full_page [ShowNext, FadeOutDone, ShowNext, ImgLoad, FadeOutDone, FadeInDone]
      (openLightbox full_page 0 ui_init)) = ''c.jpg?w=1200&h=800''
   \<and> \<not> imgComplete (lb_run full_page
      [ShowNext, FadeOutDone, ShowNext, ImgLoad, FadeOutDone, FadeInDone]
      (openLightbox full_page 0 ui_init))
   \<and> imgOpacity (lb_run full_page
      [ShowNext, FadeOutDone, ShowNext, ImgLoad, FadeOutDone, FadeInDone]
      (openLightbox full_page 0 ui_init)) = Some 1"
  by (simp add: lb_run_def openLightbox_def showNext_def updateLightboxContent_def
      fadeOut_done_def fadeOut_onComplete_def fadeIn_done_def img_load_def
      fadeInLightboxImage_def getItemData_def item_at_def set_src_def updateCounter_def
      ui_init_def full_page_def gallery3_def byId_def toFullSizeUrl_def is_digit_def Let_def
      signed_modulo_int_def)

lemma initLightbox_total: "\<exists>s'. initLightbox pg s = Inr s'"
  by (auto simp: initLightbox_def Let_def bind_js_def deref_def)

lemma initLightbox_absent:
  "byId pg ''lightbox'' = None \<or> byId pg ''lightboxImage'' = None
     \<or> byId pg ''lightboxCaption'' = None \<or> byId pg ''lightboxClose'' = None
     \<or> byId pg ''lightboxPrev'' = None \<or> byId pg ''lightboxNext'' = None
     \<or> galleryItems pg = [] \<Longrightarrow> initLightbox pg s = Inr s"
  by (auto simp: initLightbox_def)

lemma initHeroParticles_absent:
  "byId pg ''heroParticles'' = None \<Longrightarrow> initHeroParticles pg cv iw r = None"
  by (simp add: initHeroParticles_def)

lemma initNavObserver_sections:
  assumes "hasIntersectionObserver pg"
  shows "\<exists>n' k. initNavObserver pg n = Inr n' \<and> navObserver n' = Some k
        \<and> observed (observers n' ! k) = filter (\<lambda>i. i \<in> set (ids pg)) NAV_SECTION_IDS
        \<and> (byId pg sec = None \<longrightarrow> sec \<notin> set (observed (observers n' ! k)))"
proof -
  obtain n' where n': "initNavObserver pg n = Inr n'"
    using initNavObserver_Inr[OF assms] by blast
  let ?k = "length (observers n)"
  have k: "navObserver n' = Some ?k" by (rule initNavObserver_result(4)[OF n'])
  have o: "observed (observers n' ! ?k) = filter (\<lambda>i. i \<in> set (ids pg)) NAV_SECTION_IDS"
    by (rule initNavObserver_result(5)[OF n'])
  have m: "byId pg sec = None \<longrightarrow> sec \<notin> set (observed (observers n' ! ?k))"
    unfolding o by (simp add: byId_def)
  show ?thesis
  proof (intro exI[of _ n'] exI[of _ ?k] conjI)
    show "initNavObserver pg n = Inr n'" by (rule n')
    show "navObserver n' = Some ?k" by (rule k)
    show "observed (observers n' ! ?k) = filter (\<lambda>i. i \<in> set (ids pg)) NAV_SECTION_IDS"
      by (rule o)
    show "byId pg sec = None \<longrightarrow> sec \<notin> set (observed (observers n' ! ?k))" by (rule m)
  qed
qed

lemma site_start_ok:
  assumes "hasIntersectionObserver pg"
  shows "\<exists>st. site_start pg hdr cv iw r = Inr st \<and> nav_start pg hdr = Inr (nav st)
      \<and> initLightbox pg ui_init = Inr (ui st)
      \<and> hero st = (if hasGSAP pg then initHeroParticles pg cv iw r else None)"
proof -
  obtain u where u: "initLightbox pg ui_init = Inr u" using initLightbox_total by blast
  obtain n where n: "nav_start pg hdr = Inr n" using nav_start_ok[OF assms] by blast
  show ?thesis using u n by (simp add: site_start_def bind_js_def)
qed

lemma site_start_no_api:
  "\<not> hasIntersectionObserver pg \<Longrightarrow> site_start pg hdr cv iw r = Inl ReferenceError"
  by (simp add: site_start_def nav_start_def initNavObserver_Inl bind_js_def)

text \<open>
  Claim C9, as the code has it. \<open>initLightbox\<close> returns with nothing done when one of
  the six elements of the modal, or every gallery item, is missing, and throws on no
  page; \<open>initHeroParticles\<close> returns with nothing done without the canvas, and the loop
  has no observer without the hero section. \<open>initNavObserver\<close> does act when a section
  is missing: it creates the observer, which observes the sections that are present and
  no other. An entry for a section without a link is skipped, and the menu's functions
  do nothing without the hamburger or the menu. The start of the page throws for no
  missing element (it throws only in a browser without \<open>IntersectionObserver\<close>), and
  what each component sets up is what it sets up alone.
\<close>

theorem absent_elements_no_throw:
  "(byId pg ''lightbox'' = None \<or> byId pg ''lightboxImage'' = None
      \<or> byId pg ''lightboxCaption'' = None \<or> byId pg ''lightboxClose'' = None
      \<or> byId pg ''lightboxPrev'' = None \<or> byId pg ''lightboxNext'' = None
      \<or> galleryItems pg = [] \<longrightarrow> initLightbox pg s = Inr s)
   \<and> (\<exists>s'. initLightbox pg s = Inr s')
   \<and> (byId pg ''heroParticles'' = None \<longrightarrow> initHeroParticles pg cv iw r = None)
   \<and> (byId pg ''hero'' = None \<longrightarrow> \<not> hero_observed pg)
   \<and> (hasIntersectionObserver pg \<longrightarrow>
        (\<exists>n' k. initNavObserver pg n = Inr n' \<and> navObserver n' = Some k
          \<and> observed (observers n' ! k) = filter (\<lambda>i. i \<in> set (ids pg)) NAV_SECTION_IDS
          \<and> (byId pg sec = None \<longrightarrow> sec \<notin> set (observed (observers n' ! k)))))
   \<and> (fst e \<notin> set (navLinks pg) \<longrightarrow> nav_entry pg act e = act)
   \<and> (byId pg ''hamburger'' = None \<or> byId pg ''mobileMenu'' = None \<longrightarrow>
        openMobileMenu pg s = s \<and> closeMobileMenu pg s = s)
   \<and> (hasIntersectionObserver pg \<longrightarrow>
        (\<exists>st. site_start pg hdr cv iw r = Inr st \<and> nav_start pg hdr = Inr (nav st)
          \<and> initLightbox pg ui_init = Inr (ui st)
          \<and> hero st = (if hasGSAP pg then initHeroParticles pg cv iw r else None)))
   \<and> (\<not> hasIntersectionObserver pg \<longrightarrow> site_start pg hdr cv iw r = Inl ReferenceError)"
proof -
  have 67: "(fst e \<notin> set (navLinks pg) \<longrightarrow> nav_entry pg act e = act)
     \<and> (byId pg ''hamburger'' = None \<or> byId pg ''mobileMenu'' = None \<longrightarrow>
        openMobileMenu pg s = s \<and> closeMobileMenu pg s = s)"
    by (auto simp: nav_entry_def openMobileMenu_def closeMobileMenu_def)
  have 4: "byId pg ''hero'' = None \<longrightarrow> \<not> hero_observed pg" by (simp add: hero_observed_def)
  from initLightbox_absent[of pg s] initLightbox_total[of pg s]
    initHeroParticles_absent[of pg cv iw r] 4 67
    initNavObserver_sections[of pg n sec] site_start_ok[of pg hdr cv iw r]
    site_start_no_api[of pg hdr cv iw r]
  show ?thesis by blast
qed

lemma nav_start_bare: "initNavObserver bare_page (nav_blank (Some 80)) = Inr nav_bare"
  by (simp add: nav_bare_def bare_page_def byId_def initNavObserver_def nav_blank_def Let_def
      NAV_SECTION_IDS_def)

text \<open>
  Claim C9 as stated fails for a navigable section: with the section \<open>about\<close> missing,
  \<open>initNavObserver\<close> does not return with nothing done; it creates the observer and
  observes the three sections that are there.
\<close>

theorem absent_section_counterexample:
  "byId bare_page ''about'' = None
   \<and> initNavObserver bare_page (nav_blank (Some 80)) = Inr nav_bare
   \<and> nav_bare \<noteq> nav_blank (Some 80)
   \<and> navObserver nav_bare = Some 0
   \<and> observed (observers nav_bare ! 0) = [''topics'', ''exhibition'', ''access'']"
  by (simp add: nav_start_bare) (simp add: bare_page_def byId_def nav_bare_def nav_blank_def)

theorem absent_elements_no_throw_witness:
  "byId bare_page ''lightbox'' = None
   \<and> byId bare_page ''heroParticles'' = None
   \<and> byId bare_page ''hero'' = None
   \<and> byId bare_page ''about'' = None
   \<and> byId bare_page ''hamburger'' = None
   \<and> fst (''about'', True) \<notin> set (navLinks bare_page)
   \<and> hasIntersectionObserver bare_page
   \<and> initLightbox bare_page ui_init = Inr ui_init
   \<and> initHeroParticles bare_page (300, 150) 1280 (\<lambda>k. 1 / 2) = None
   \<and> \<not> hero_observed bare_page
   \<and> nav_entry bare_page {} (''about'', True) = {}
   \<and> openMobileMenu bare_page ui_init = ui_init
   \<and> site_start bare_page (Some 80) (300, 150) 1280 (\<lambda>k. 1 / 2)
       = Inr \<lparr>ui = ui_init, nav = nav_bare, hero = None\<rparr>
   \<and> \<not> hasIntersectionObserver (bare_page\<lparr>hasIntersectionObserver := False\<rparr>)
   \<and> site_start (bare_page\<lparr>hasIntersectionObserver := False\<rparr>) (Some 80) (300, 150) 1280
        (\<lambda>k. 1 / 2) = Inl ReferenceError"
proof -
  note a = absent_elements_no_throw[where pg = bare_page and s = ui_init and cv = "(300, 150)"
      and iw = 1280 and r = "\<lambda>k. 1 / 2" and n = "nav_blank (Some 80)" and sec = "''about''"
      and e = "(''about'', True)" and act = "{}" and hdr = "Some 80"]
  note z = absent_elements_no_throw[where pg = "bare_page\<lparr>hasIntersectionObserver := False\<rparr>"
      and cv = "(300, 150)" and iw = 1280 and r = "\<lambda>k. 1 / 2" and hdr = "Some 80"]
  have b: "byId bare_page ''lightbox'' = None" "byId bare_page ''heroParticles'' = None"
    "byId bare_page ''hero'' = None" "byId bare_page ''about'' = None"
    "byId bare_page ''hamburger'' = None" "fst (''about'', True) \<notin> set (navLinks bare_page)"
    "hasIntersectionObserver bare_page"
    by (simp_all add: bare_page_def byId_def)
  have nz: "\<not> hasIntersectionObserver (bare_page\<lparr>hasIntersectionObserver := False\<rparr>)" by simp
  have 1: "initLightbox bare_page ui_init = Inr ui_init" using a b(1) by blast
  have 2: "initHeroParticles bare_page (300, 150) 1280 (\<lambda>k. 1 / 2) = None" using a b(2) by blast
  have 3: "\<not> hero_observed bare_page" using a b(3) by blast
  have 4: "nav_entry bare_page {} (''about'', True) = {}" using a b(6) by blast
  have 5: "openMobileMenu bare_page ui_init = ui_init" using a b(5) by blast
  obtain st where st: "site_start bare_page (Some 80) (300, 150) 1280 (\<lambda>k. 1 / 2) = Inr st"
    "nav_start bare_page (Some 80) = Inr (nav st)" "initLightbox bare_page ui_init = Inr (ui st)"
    "hero st = (if hasGSAP bare_page then initHeroParticles bare_page (300, 150) 1280 (\<lambda>k. 1 / 2)
                else None)"
    using a b(7) by blast
  have "ui st = ui_init" using st(3) 1 by simp
  moreover have "hero st = None" using st(4) 2 by simp
  moreover have "nav st = nav_bare" using st(2) nav_start_bare by (simp add: nav_start_def)
  ultimately have "st = \<lparr>ui = ui_init, nav = nav_bare, hero = None\<rparr>"
    by (cases st) simp
  with st(1) have 6: "site_start bare_page (Some 80) (300, 150) 1280 (\<lambda>k. 1 / 2)
       = Inr \<lparr>ui = ui_init, nav = nav_bare, hero = None\<rparr>" by simp
  have 7: "site_start (bare_page\<lparr>hasIntersectionObserver := False\<rparr>) (Some 80) (300, 150) 1280
        (\<lambda>k. 1 / 2) = Inl ReferenceError" using z nz by blast
  from b nz 1 2 3 4 5 6 7 show ?thesis by blast
qed

end
